theory Spec2Isabelle
  imports Main "HOL-Library.Word"
begin

section \<open>The connector daemon of qiniu/csi-driver (connector/main.go)\<close>

text \<open>
  The connector accepts connections on a unix socket. For each connection \<open>main\<close> sets a
  deadline, makes two unbuffered channels and starts two goroutines, \<open>handleConn\<close> and
  \<open>handleCmd\<close>. \<open>handleConn\<close> runs an inbound loop (scan a line, decode it, send the command
  on a channel) and an outbound goroutine (receive an event, marshal it to the socket).
  \<open>handleCmd\<close> owns the child process: it starts it on an init command, spawns two
  \<open>outputReader\<close> goroutines and one goroutine that runs the process and reports its exit.

  The model is an interleaving semantics: every goroutine has a program counter, a step of
  the system is one atomic step of one goroutine (or a rendezvous of two on an unbuffered
  channel), and the socket peer, the child process and the clock are the environment,
  given as scripts in the state. Each source function is a HOL function on the state.
  Statements of one goroutine between two blocking operations (a read, a channel
  operation, waiting for the process) are taken as one step, except that a load of
  \<open>isClosed\<close> and the send that follows it are two steps. Info-level logging is left
  out; the format strings of warnings and errors are kept in \<open>logs\<close>.
\<close>

subsection \<open>Package protocol: constants, commands, the request envelope\<close>

text \<open>
  Package \<open>protocol\<close> is imported by main.go and is not part of the sources at hand. Its
  string constants are parameters of the model. Both init commands are opaque to main.go,
  which reads no field of either: their content is one uninterpreted document.
\<close>

record protocol =
  Version :: string
  InitKodoFsMountCmdName :: string
  InitKodoMountCmdName :: string
  RequestDataCmdName :: string
  ResponseDataCmdName :: string
  TerminateCmdName :: string

datatype cmd =
    InitKodoFSMountCmd string
  | InitKodoMountCmd string
  | RequestDataCmd string
  | ResponseDataCmd string bool
  | TerminateCmd int

text \<open>
  \<open>protocol.Request{Version, Cmd, Payload}\<close>. On the way in the payload is a
  \<open>json.RawMessage\<close>; it is identified with what \<open>json.Unmarshal\<close> makes of it for each of
  the three types \<open>handleConn\<close> unmarshals into (\<open>None\<close>: unmarshalling fails). On the way
  out the payload is the marshalled command, identified with the command.
\<close>

record 'p request =
  rq_Version :: string
  rq_Cmd :: string
  rq_Payload :: 'p

record raw_message =
  as_InitKodoFSMountCmd :: "string option"
  as_InitKodoMountCmd :: "string option"
  as_RequestDataCmd :: "string option"

text \<open>A scanned line is what \<open>json.Unmarshal(scanner.Bytes(), &request)\<close> makes of it.\<close>

datatype line = Unparsable | Parsed "raw_message request"

datatype sock_event = Line line | EOF | ReadErr

subsection \<open>handleConn: decoding one scanned line\<close>

datatype decode_error =
    ProtocolParseError
  | UnrecognizedVersion
  | PayloadParseError
  | UnrecognizedCmd

text \<open>
  The body of the \<open>for scanner.Scan()\<close> loop up to the channel send: \<open>Inr c\<close> is
  \<open>cmdOut <- payload\<close>, \<open>Inl e\<close> is the warning logged before \<open>return\<close>.
\<close>

definition decode_payload :: "string option \<Rightarrow> (string \<Rightarrow> cmd) \<Rightarrow> decode_error + cmd" where
  "decode_payload parsed mk =
     (case parsed of None \<Rightarrow> Inl PayloadParseError | Some a \<Rightarrow> Inr (mk a))"

definition handleConn_decode :: "protocol \<Rightarrow> line \<Rightarrow> decode_error + cmd" where
  "handleConn_decode p l =
     (case l of
        Unparsable \<Rightarrow> Inl ProtocolParseError
      | Parsed r \<Rightarrow>
          if rq_Version r \<noteq> Version p then Inl UnrecognizedVersion
          else if rq_Cmd r = InitKodoFsMountCmdName p then
            decode_payload (as_InitKodoFSMountCmd (rq_Payload r)) InitKodoFSMountCmd
          else if rq_Cmd r = InitKodoMountCmdName p then
            decode_payload (as_InitKodoMountCmd (rq_Payload r)) InitKodoMountCmd
          else if rq_Cmd r = RequestDataCmdName p then
            decode_payload (as_RequestDataCmd (rq_Payload r)) RequestDataCmd
          else Inl UnrecognizedCmd)"

definition decode_warning :: "decode_error \<Rightarrow> string" where
  "decode_warning e =
     (case e of
        ProtocolParseError \<Rightarrow> ''Protocol parse error: %s''
      | UnrecognizedVersion \<Rightarrow> ''Unrecognized protocol version: %s''
      | PayloadParseError \<Rightarrow> ''Protocol %s payload parse error: %s''
      | UnrecognizedCmd \<Rightarrow> ''Unrecognized request cmd: %s'')"

subsection \<open>The state of one connection\<close>

text \<open>The three pipes of the child, as \<open>StdinPipe\<close>, \<open>StdoutPipe\<close>, \<open>StderrPipe\<close> return them.\<close>

datatype pipe = StdinPipe | StdoutPipe | StderrPipe

datatype proc_state = NotStarted | Running | Exited int | StartFailed

text \<open>
  Program counters. \<open>IN\<close>: the body of \<open>handleConn\<close>; \<open>OUT\<close>: its goroutine; \<open>CMD\<close>:
  \<open>handleCmd\<close>; \<open>R\<close>: an \<open>outputReader\<close>; \<open>E\<close>: the goroutine of \<open>execCommand\<close> that runs
  the process.
\<close>

datatype in_pc = IN_Scan | IN_Send cmd | IN_Wait | IN_Done

datatype out_pc = OUT_Select | OUT_Done

datatype cmd_pc = CMD_Select | CMD_Done

datatype reader_pc = R_Read | R_Check string | R_Send cmd | R_Done

datatype exit_pc =
  E_Idle | E_Run | E_Wait | E_AfterRun | E_Check | E_Send cmd | E_Log | E_Done

text \<open>The two \<open>go outputReader(...)\<close> statements of \<open>execCommand\<close>, in source order.\<close>

datatype reader_id = GoStdout | GoStderr

text \<open>An \<open>outputReader\<close> goroutine: its three arguments and where it stands.\<close>

record reader =
  r_name :: string
  r_output :: "pipe option"
  r_isError :: bool
  r_pc :: reader_pc

text \<open>The \<open>afterRun\<close> argument of \<open>execCommand\<close>: nil, or the closure that removes the file
  named by the variable \<open>rcloneConfigPath\<close> (read when the closure runs).\<close>

datatype after_run = RemoveRcloneConfig

datatype sender = Reader reader_id | ExitTask

text \<open>What the connection does that can be seen from outside, in order.\<close>

datatype event =
    Forwarded cmd
  | Sent sender cmd
  | Started cmd
  | StdinWrite string
  | Removed string
  | MarkedClosed
  | Panic sender

record state =
  proto :: protocol
  peer :: "sock_event list"
  pipe_fails :: "pipe \<Rightarrow> bool"
  rclone_write :: "string option list"
  start_fails :: bool
  child_stdout :: "string list"
  child_stderr :: "string list"
  child_code :: int
  now :: int
  deadline :: int
  conn_closed :: bool
  conn_out :: "cmd request list"
  files :: "string set"
  proc :: proc_state
  pipe_data :: "pipe \<Rightarrow> string list"
  pipe_closed :: "pipe \<Rightarrow> bool"
  conn_ctx_done :: bool
  cmdOut_closed :: bool
  cmdIn_closed :: bool
  inbound :: in_pc
  outbound :: out_pc
  isClosed :: "32 word"
  execCmd :: "cmd option"
  rcloneConfigPath :: string
  stdin :: "pipe option"
  stdout :: "pipe option"
  stderr :: "pipe option"
  ctx_done :: bool
  handler :: cmd_pc
  readers :: "reader_id \<Rightarrow> reader option"
  afterRun :: "after_run option"
  awaiter :: exit_pc
  crashed :: bool
  trace :: "event list"
  logs :: "string list"

subsection \<open>The socket\<close>

text \<open>
  \<open>net.Conn\<close>: a read or a write fails once the connection is closed or its deadline has
  passed (the deadline is an absolute time and applies to all future and pending I/O).
\<close>

definition conn_usable :: "state \<Rightarrow> bool" where
  "conn_usable s = (\<not> conn_closed s \<and> now s < deadline s)"

definition warn :: "string \<Rightarrow> state \<Rightarrow> state" where
  "warn msg s = s\<lparr>logs := logs s @ [msg]\<rparr>"

definition emit :: "event \<Rightarrow> state \<Rightarrow> state" where
  "emit e s = s\<lparr>trace := trace s @ [e]\<rparr>"

subsection \<open>handleConn: the outbound goroutine\<close>

text \<open>
  \<open>marshalToConn\<close>: the command is wrapped in a request with the protocol version and the
  given name, and written with a newline. \<open>json.Marshal\<close> does not fail on these values;
  a failing write is logged and nothing is written.
\<close>

definition marshalToConn :: "string \<Rightarrow> cmd \<Rightarrow> state \<Rightarrow> state" where
  "marshalToConn cmdName c s =
     (if conn_usable s then
        s\<lparr>conn_out := conn_out s @
             [\<lparr>rq_Version = Version (proto s), rq_Cmd = cmdName, rq_Payload = c\<rparr>]\<rparr>
      else warn ''Write into conn error: %s'' s)"

text \<open>
  The type switch on the value received from \<open>cmdIn\<close>. \<open>None\<close> is the nil that a receive
  from a closed channel yields: the receive does not test for it, and no case matches.
\<close>

definition handleConn_outbound :: "cmd option \<Rightarrow> state \<Rightarrow> state" where
  "handleConn_outbound received s =
     (case received of
        Some (ResponseDataCmd d e) \<Rightarrow>
          marshalToConn (ResponseDataCmdName (proto s)) (ResponseDataCmd d e) s
      | Some (TerminateCmd n) \<Rightarrow>
          marshalToConn (TerminateCmdName (proto s)) (TerminateCmd n) s
      | _ \<Rightarrow> s)"

subsection \<open>handleConn: the inbound loop\<close>

text \<open>
  Every \<open>return\<close> of \<open>handleConn\<close> runs its deferred calls: \<open>close(cmdOut)\<close>, \<open>cancel()\<close>,
  then \<open>wg.Wait()\<close>, which blocks until the outbound goroutine is done.
\<close>

definition handleConn_return :: "state \<Rightarrow> state" where
  "handleConn_return s = s\<lparr>cmdOut_closed := True, conn_ctx_done := True, inbound := IN_Wait\<rparr>"

definition handleConn_scan :: "state \<Rightarrow> state option" where
  "handleConn_scan s =
     (if \<not> conn_usable s then
        Some (handleConn_return (warn ''Read from conn error: %s'' s))
      else
        (case peer s of
           [] \<Rightarrow> None
         | Line l # rest \<Rightarrow>
             (case handleConn_decode (proto s) l of
                Inl e \<Rightarrow> Some (handleConn_return (warn (decode_warning e) (s\<lparr>peer := rest\<rparr>)))
              | Inr c \<Rightarrow> Some (s\<lparr>peer := rest, inbound := IN_Send c\<rparr>))
         | EOF # rest \<Rightarrow> Some (handleConn_return (s\<lparr>peer := rest\<rparr>))
         | ReadErr # rest \<Rightarrow>
             Some (handleConn_return (warn ''Read from conn error: %s'' (s\<lparr>peer := rest\<rparr>)))))"

subsection \<open>handleCmd\<close>

text \<open>
  The deferred calls of \<open>handleCmd\<close>, last registered first: the closure that stores 1 in
  \<open>isClosed\<close> and closes the pipes that are not nil, then \<open>cancel()\<close>, then
  \<open>close(cmdOut)\<close> (the channel \<open>main\<close> calls \<open>cmdIn\<close>).
\<close>

definition close_pipe :: "pipe option \<Rightarrow> state \<Rightarrow> state" where
  "close_pipe ph s =
     (case ph of None \<Rightarrow> s | Some h \<Rightarrow> s\<lparr>pipe_closed := (pipe_closed s)(h := True)\<rparr>)"

definition handleCmd_return :: "state \<Rightarrow> state" where
  "handleCmd_return s =
     (let s1 = emit MarkedClosed (s\<lparr>isClosed := 1\<rparr>);
          s2 = close_pipe (stdin s1) s1;
          s3 = close_pipe (stdout s2) s2;
          s4 = close_pipe (stderr s3) s3
      in s4\<lparr>ctx_done := True, cmdIn_closed := True, handler := CMD_Done\<rparr>)"

text \<open>\<open>go outputReader(name, output, isError)\<close>: the arguments are evaluated at the statement.\<close>

definition go_outputReader :: "reader_id \<Rightarrow> string \<Rightarrow> pipe option \<Rightarrow> bool \<Rightarrow> state \<Rightarrow> state" where
  "go_outputReader i name output isError s =
     s\<lparr>readers := (readers s)(i \<mapsto>
          \<lparr>r_name = name, r_output = output, r_isError = isError, r_pc = R_Read\<rparr>)\<rparr>"

text \<open>
  \<open>execCommand(ec, afterRun)\<close>. The command \<open>ec\<close> is \<open>c.ExecCommand(ctx)\<close> of the init
  command \<open>c\<close> and is identified with \<open>c\<close>; the values \<open>handleCmd\<close> puts into the context
  for it are not modelled. Whether a pipe can be made is the environment's
  (\<open>pipe_fails\<close>). The goroutine started last is the one of section
  \<open>execCommand: the goroutine that runs the process\<close>; its \<open>afterRun\<close> is kept in the state.
\<close>

definition execCommand :: "cmd \<Rightarrow> after_run option \<Rightarrow> state \<Rightarrow> bool \<times> state" where
  "execCommand ec ar s =
     (if execCmd s \<noteq> None then
        (False, warn ''Received duplicated init cmd, which is unacceptable'' s)
      else
        let s1 = s\<lparr>execCmd := Some ec\<rparr> in
        if pipe_fails s1 StdinPipe then
          (False, warn ''Failed to create stdin pipe: %s'' (s1\<lparr>stdin := None\<rparr>))
        else
          let s2 = s1\<lparr>stdin := Some StdinPipe\<rparr> in
          if pipe_fails s2 StdoutPipe then
            (False, warn ''Failed to create stdout pipe: %s'' (s2\<lparr>stdout := None\<rparr>))
          else
            let s3 = s2\<lparr>stdout := Some StdoutPipe\<rparr>;
                s4 = go_outputReader GoStdout ''stdout'' (stdout s3) False s3 in
            if pipe_fails s4 StderrPipe then
              (False, warn ''Failed to create stderr pipe: %s'' (s4\<lparr>stderr := None\<rparr>))
            else
              let s5 = s4\<lparr>stderr := Some StderrPipe\<rparr>;
                  s6 = go_outputReader GoStderr ''stderr'' (stderr s5) False s5
              in (True, s6\<lparr>afterRun := ar, awaiter := E_Run\<rparr>))"

text \<open>
  Modelled from the spec: \<open>writeRcloneConfig\<close> is a function of the connector that is not
  in main.go. The spec says of it that the daemon materializes the credentials of the
  object-store init command as a temporary configuration file. Here it creates the file;
  the file's name and whether the write fails are the environment's (the next entry of
  \<open>rclone_write\<close>; \<open>None\<close> or no entry: the write fails, and the path returned with
  the error is taken to be empty).
\<close>

definition writeRcloneConfig :: "state \<Rightarrow> string option \<times> state" where
  "writeRcloneConfig s =
     (case rclone_write s of
        [] \<Rightarrow> (None, s)
      | None # rest \<Rightarrow> (None, s\<lparr>rclone_write := rest\<rparr>)
      | Some path # rest \<Rightarrow>
          (Some path, s\<lparr>rclone_write := rest, files := insert path (files s)\<rparr>))"

text \<open>A write to the child's standard input fails when our end is closed or the child is gone.\<close>

definition child_gone :: "state \<Rightarrow> bool" where
  "child_gone s = (case proc s of Exited n \<Rightarrow> True | StartFailed \<Rightarrow> True | _ \<Rightarrow> False)"

text \<open>
  One command received from the channel: the type switch of \<open>handleCmd\<close>. The result is
  the state at the next \<open>select\<close>, or after the return.
\<close>

definition handleCmd_dispatch :: "cmd \<Rightarrow> state \<Rightarrow> state" where
  "handleCmd_dispatch c s =
     (case c of
        InitKodoFSMountCmd a \<Rightarrow>
          (case execCommand c None s of
             (ok, s') \<Rightarrow> if ok then s' else handleCmd_return s')
      | InitKodoMountCmd a \<Rightarrow>
          (case writeRcloneConfig s of
             (None, s1) \<Rightarrow>
               handleCmd_return
                 (warn ''Failed to write rclone config: %s'' (s1\<lparr>rcloneConfigPath := []\<rparr>))
           | (Some path, s1) \<Rightarrow>
               (case execCommand c (Some RemoveRcloneConfig) (s1\<lparr>rcloneConfigPath := path\<rparr>) of
                  (ok, s') \<Rightarrow> if ok then s' else handleCmd_return s'))
      | RequestDataCmd d \<Rightarrow>
          (case stdin s of
             None \<Rightarrow>
               handleCmd_return (warn ''Received RequestDataCmd when process is not started'' s)
           | Some h \<Rightarrow>
               if pipe_closed s h \<or> child_gone s then
                 handleCmd_return (warn ''Failed to write data into stdin: %s'' s)
               else
                 emit (StdinWrite d) (s\<lparr>pipe_data := (pipe_data s)(h := pipe_data s h @ [d])\<rparr>))
      | _ \<Rightarrow> s)"

subsection \<open>outputReader\<close>

definition set_reader_pc :: "reader_id \<Rightarrow> reader_pc \<Rightarrow> state \<Rightarrow> state" where
  "set_reader_pc i pc s =
     (case readers s i of
        None \<Rightarrow> s
      | Some r \<Rightarrow> s\<lparr>readers := (readers s)(i \<mapsto> r\<lparr>r_pc := pc\<rparr>)\<rparr>)"

definition reader_at :: "state \<Rightarrow> reader_id \<Rightarrow> reader_pc option" where
  "reader_at s i = map_option r_pc (readers s i)"

text \<open>
  \<open>buf := make([]byte, 4096); n, err := stdout.Read(buf)\<close>. The read is from the variable
  \<open>stdout\<close> of \<open>handleCmd\<close>, whatever the \<open>output\<close> argument is. It takes at most 4096
  bytes of the first chunk in the pipe. A closed pipe gives \<open>os.ErrClosed\<close>, an empty pipe
  whose writer is gone gives \<open>io.EOF\<close>: both return. An empty pipe of a live child blocks
  (\<open>None\<close>). A nil \<open>stdout\<close> would be a nil dereference.
\<close>

definition outputReader_read :: "reader_id \<Rightarrow> state \<Rightarrow> state option" where
  "outputReader_read i s =
     (case stdout s of
        None \<Rightarrow> Some (emit (Panic (Reader i)) (s\<lparr>crashed := True\<rparr>))
      | Some h \<Rightarrow>
          if pipe_closed s h then Some (set_reader_pc i R_Done s)
          else
            (case pipe_data s h of
               [] \<Rightarrow> if child_gone s then Some (set_reader_pc i R_Done s) else None
             | c # rest \<Rightarrow>
                 Some (set_reader_pc i (R_Check (take 4096 c))
                   (s\<lparr>pipe_data := (pipe_data s)
                       (h := (if drop 4096 c = [] then rest else drop 4096 c # rest))\<rparr>))))"

text \<open>Any other read error is logged, and the reader returns.\<close>

definition outputReader_fault :: "reader_id \<Rightarrow> state \<Rightarrow> state" where
  "outputReader_fault i s = set_reader_pc i R_Done (warn ''Failed to read from %s: %s'' s)"

text \<open>
  \<open>if atomic.LoadUint32(&isClosed) > 0 { return }\<close>, then the command to send is built
  from the bytes read and the \<open>isError\<close> argument.
\<close>

definition outputReader_check :: "reader_id \<Rightarrow> string \<Rightarrow> state \<Rightarrow> state" where
  "outputReader_check i d s =
     (if 0 < isClosed s then set_reader_pc i R_Done s
      else
        (case readers s i of
           None \<Rightarrow> s
         | Some r \<Rightarrow> set_reader_pc i (R_Send (ResponseDataCmd d (r_isError r))) s))"

subsection \<open>execCommand: the goroutine that runs the process\<close>

text \<open>
  \<open>err := execCmd.Run()\<close> starts the process and waits for it. \<open>Run\<close> returns when the
  process has exited or could not be started; by then \<open>Wait\<close> has closed the parent's ends
  of the three pipes.
\<close>

definition run_start :: "state \<Rightarrow> state" where
  "run_start s =
     (if start_fails s then s\<lparr>proc := StartFailed, awaiter := E_Wait\<rparr>
      else
        (case execCmd s of
           None \<Rightarrow> emit (Panic ExitTask) (s\<lparr>crashed := True\<rparr>)
         | Some ec \<Rightarrow> emit (Started ec) (s\<lparr>proc := Running, awaiter := E_Wait\<rparr>)))"

definition run_returns :: "state \<Rightarrow> state option" where
  "run_returns s =
     (if child_gone s then Some (s\<lparr>pipe_closed := (\<lambda>h. True), awaiter := E_AfterRun\<rparr>)
      else None)"

text \<open>\<open>if afterRun != nil { afterRun() }\<close>; the closure is \<open>os.Remove(rcloneConfigPath)\<close>.\<close>

definition call_afterRun :: "state \<Rightarrow> state" where
  "call_afterRun s =
     (case afterRun s of
        None \<Rightarrow> s\<lparr>awaiter := E_Check\<rparr>
      | Some RemoveRcloneConfig \<Rightarrow>
          emit (Removed (rcloneConfigPath s))
            (s\<lparr>files := files s - {rcloneConfigPath s}, awaiter := E_Check\<rparr>))"

text \<open>\<open>ProcessState.ExitCode()\<close>: the exit code, or -1 when there is none.\<close>

definition ExitCode :: "proc_state \<Rightarrow> int" where
  "ExitCode p = (case p of Exited n \<Rightarrow> n | _ \<Rightarrow> - 1)"

text \<open>
  \<open>if atomic.LoadUint32(&isClosed) > 0 { return }\<close> (the deferred \<open>cancel()\<close> runs), else
  the \<open>TerminateCmd\<close> to send is built.
\<close>

definition awaiter_check :: "state \<Rightarrow> state" where
  "awaiter_check s =
     (if 0 < isClosed s then s\<lparr>ctx_done := True, awaiter := E_Done\<rparr>
      else s\<lparr>awaiter := E_Send (TerminateCmd (ExitCode (proc s)))\<rparr>)"

text \<open>After the send: the outcome of \<open>Run\<close> is logged, and the deferred \<open>cancel()\<close> runs.\<close>

definition awaiter_return :: "state \<Rightarrow> state" where
  "awaiter_return s =
     (let s1 = (if proc s = Exited 0 then s else warn ''Failed to run command (%s): %s'' s)
      in s1\<lparr>ctx_done := True, awaiter := E_Done\<rparr>)"

subsection \<open>The channel from the session to the connection\<close>

text \<open>
  \<open>main\<close> calls this channel \<open>cmdIn\<close>; it is \<open>cmdOut\<close> inside \<open>handleCmd\<close>. It is
  unbuffered: a send completes together with a receive of the outbound goroutine.
\<close>

definition sending :: "state \<Rightarrow> sender \<Rightarrow> cmd option" where
  "sending s who =
     (case who of
        Reader i \<Rightarrow> (case reader_at s i of Some (R_Send v) \<Rightarrow> Some v | _ \<Rightarrow> None)
      | ExitTask \<Rightarrow> (case awaiter s of E_Send v \<Rightarrow> Some v | _ \<Rightarrow> None))"

definition after_send :: "sender \<Rightarrow> state \<Rightarrow> state" where
  "after_send who s =
     (case who of
        Reader i \<Rightarrow> set_reader_pc i R_Read s
      | ExitTask \<Rightarrow> s\<lparr>awaiter := E_Log\<rparr>)"

definition deliver :: "sender \<Rightarrow> state \<Rightarrow> state option" where
  "deliver who s =
     (case sending s who of
        None \<Rightarrow> None
      | Some v \<Rightarrow>
          if outbound s = OUT_Select \<and> \<not> cmdIn_closed s then
            Some (handleConn_outbound (Some v) (emit (Sent who v) (after_send who s)))
          else None)"

text \<open>A send on a closed channel panics, also when the sender was already blocked in it.\<close>

definition panic_send :: "sender \<Rightarrow> state \<Rightarrow> state option" where
  "panic_send who s =
     (case sending s who of
        None \<Rightarrow> None
      | Some v \<Rightarrow>
          if cmdIn_closed s then Some (emit (Panic who) (s\<lparr>crashed := True\<rparr>)) else None)"

subsection \<open>The child process\<close>

definition child_write :: "pipe \<Rightarrow> state \<Rightarrow> state option" where
  "child_write h s =
     (if proc s \<noteq> Running then None
      else if h = StdoutPipe then
        (case child_stdout s of
           [] \<Rightarrow> None
         | c # rest \<Rightarrow>
             Some (s\<lparr>child_stdout := rest,
                     pipe_data := (pipe_data s)(h := pipe_data s h @ [c])\<rparr>))
      else if h = StderrPipe then
        (case child_stderr s of
           [] \<Rightarrow> None
         | c # rest \<Rightarrow>
             Some (s\<lparr>child_stderr := rest,
                     pipe_data := (pipe_data s)(h := pipe_data s h @ [c])\<rparr>))
      else None)"

definition child_exit :: "state \<Rightarrow> state option" where
  "child_exit s = (if proc s = Running then Some (s\<lparr>proc := Exited (child_code s)\<rparr>) else None)"

subsection \<open>Steps and runs\<close>

datatype action =
    Tick nat
  | InScan
  | InJoin
  | Forward
  | CmdChanClosed
  | CmdCtxDone
  | OutRecvClosed
  | OutCtxDone
  | Deliver sender
  | PanicSend sender
  | ReaderRead reader_id
  | ReaderFault reader_id
  | ReaderCheck reader_id
  | RunStart
  | RunReturns
  | AfterRun
  | AwaiterCheck
  | AwaiterReturn
  | ChildWrite pipe
  | ChildExit

text \<open>
  One step. \<open>None\<close>: the action is not enabled (the goroutine is elsewhere, or blocked).
  After a panic the process is gone and nothing is enabled.
\<close>

definition guard :: "bool \<Rightarrow> state \<Rightarrow> state option" where
  "guard b s = (if b then Some s else None)"

definition step :: "action \<Rightarrow> state \<Rightarrow> state option" where
  "step a s =
     (if crashed s then None
      else
        (case a of
           Tick d \<Rightarrow> Some (s\<lparr>now := now s + int d\<rparr>)
         | InScan \<Rightarrow> (if inbound s = IN_Scan then handleConn_scan s else None)
         | InJoin \<Rightarrow>
             guard (inbound s = IN_Wait \<and> outbound s = OUT_Done) (s\<lparr>inbound := IN_Done\<rparr>)
         | Forward \<Rightarrow>
             (case inbound s of
                IN_Send c \<Rightarrow>
                  guard (handler s = CMD_Select)
                    (handleCmd_dispatch c (emit (Forwarded c) (s\<lparr>inbound := IN_Scan\<rparr>)))
              | _ \<Rightarrow> None)
         | CmdChanClosed \<Rightarrow>
             guard (handler s = CMD_Select \<and> cmdOut_closed s) (handleCmd_return s)
         | CmdCtxDone \<Rightarrow>
             guard (handler s = CMD_Select \<and> ctx_done s) (handleCmd_return s)
         | OutRecvClosed \<Rightarrow>
             guard (outbound s = OUT_Select \<and> cmdIn_closed s) (handleConn_outbound None s)
         | OutCtxDone \<Rightarrow>
             guard (outbound s = OUT_Select \<and> conn_ctx_done s)
               (s\<lparr>conn_closed := True, outbound := OUT_Done\<rparr>)
         | Deliver who \<Rightarrow> deliver who s
         | PanicSend who \<Rightarrow> panic_send who s
         | ReaderRead i \<Rightarrow>
             (if reader_at s i = Some R_Read then outputReader_read i s else None)
         | ReaderFault i \<Rightarrow>
             guard (reader_at s i = Some R_Read) (outputReader_fault i s)
         | ReaderCheck i \<Rightarrow>
             (case reader_at s i of
                Some (R_Check d) \<Rightarrow> Some (outputReader_check i d s)
              | _ \<Rightarrow> None)
         | RunStart \<Rightarrow> guard (awaiter s = E_Run) (run_start s)
         | RunReturns \<Rightarrow> (if awaiter s = E_Wait then run_returns s else None)
         | AfterRun \<Rightarrow> guard (awaiter s = E_AfterRun) (call_afterRun s)
         | AwaiterCheck \<Rightarrow> guard (awaiter s = E_Check) (awaiter_check s)
         | AwaiterReturn \<Rightarrow> guard (awaiter s = E_Log) (awaiter_return s)
         | ChildWrite h \<Rightarrow> child_write h s
         | ChildExit \<Rightarrow> child_exit s))"

fun run :: "action list \<Rightarrow> state \<Rightarrow> state option" where
  "run [] s = Some s"
| "run (a # as) s = (case step a s of None \<Rightarrow> None | Some s' \<Rightarrow> run as s')"

subsection \<open>main: accepting a connection\<close>

text \<open>What the environment brings to one connection.\<close>

record environment =
  e_proto :: protocol
  e_peer :: "sock_event list"
  e_pipe_fails :: "pipe \<Rightarrow> bool"
  e_rclone_write :: "string option list"
  e_start_fails :: bool
  e_child_stdout :: "string list"
  e_child_stderr :: "string list"
  e_child_code :: int
  e_files :: "string set"

definition Second :: int where
  "Second = 1000000000"

text \<open>
  The body of the accept loop for a connection accepted at time \<open>t\<close>:
  \<open>conn.SetDeadline(time.Now().Add(30 * time.Second))\<close>, the two channels, the two
  goroutines; \<open>handleCmd\<close> starts with its variables at their zero values.
\<close>

definition main_accept :: "environment \<Rightarrow> int \<Rightarrow> state" where
  "main_accept e t =
     \<lparr>proto = e_proto e, peer = e_peer e, pipe_fails = e_pipe_fails e,
      rclone_write = e_rclone_write e, start_fails = e_start_fails e,
      child_stdout = e_child_stdout e, child_stderr = e_child_stderr e,
      child_code = e_child_code e,
      now = t, deadline = t + 30 * Second, conn_closed = False, conn_out = [],
      files = e_files e, proc = NotStarted,
      pipe_data = (\<lambda>h. []), pipe_closed = (\<lambda>h. False),
      conn_ctx_done = False, cmdOut_closed = False, cmdIn_closed = False,
      inbound = IN_Scan, outbound = OUT_Select,
      isClosed = 0, execCmd = None, rcloneConfigPath = [],
      stdin = None, stdout = None, stderr = None,
      ctx_done = False, handler = CMD_Select,
      readers = (\<lambda>i. None), afterRun = None, awaiter = E_Idle,
      crashed = False, trace = [], logs = []\<rparr>"

subsection \<open>Observing a run\<close>

definition observe :: "(state \<Rightarrow> 'a) \<Rightarrow> action list \<Rightarrow> state \<Rightarrow> 'a option" where
  "observe f as s = map_option f (run as s)"

definition pipe_content :: "pipe \<Rightarrow> state \<Rightarrow> string list" where
  "pipe_content h s = pipe_data s h"

definition pipe_is_closed :: "pipe \<Rightarrow> state \<Rightarrow> bool" where
  "pipe_is_closed h s = pipe_closed s h"

definition reader_of :: "reader_id \<Rightarrow> state \<Rightarrow> reader option" where
  "reader_of i s = readers s i"

subsection \<open>Concrete connections\<close>

text \<open>
  An instance of the constants of package \<open>protocol\<close>, for the concrete runs below: the
  version of the spec's example line, and names after the command types. The theorems
  that speak of every protocol do not depend on these values.
\<close>

definition demo_protocol :: protocol where
  "demo_protocol =
     \<lparr>Version = ''v1'',
      InitKodoFsMountCmdName = ''initKodoFsMountCmd'',
      InitKodoMountCmdName = ''initKodoMountCmd'',
      RequestDataCmdName = ''requestDataCmd'',
      ResponseDataCmdName = ''responseDataCmd'',
      TerminateCmdName = ''terminateCmd''\<rparr>"

text \<open>A well-formed line of the given version and name whose payload is the JSON object
  \<open>doc\<close>, which unmarshals into each of the three inbound types.\<close>

definition demo_line :: "string \<Rightarrow> string \<Rightarrow> string \<Rightarrow> sock_event" where
  "demo_line v name doc =
     Line (Parsed \<lparr>rq_Version = v, rq_Cmd = name,
       rq_Payload = \<lparr>as_InitKodoFSMountCmd = Some doc, as_InitKodoMountCmd = Some doc,
                     as_RequestDataCmd = Some doc\<rparr>\<rparr>)"

text \<open>
  A peer that sends the given lines and then stays silent, and a child that writes
  \<open>O\<close> to its standard output, \<open>E\<close> to its standard error and exits with the given code.
  Nothing fails; \<open>writeRcloneConfig\<close> makes the file \<open>A\<close>, then the file \<open>B\<close>.
\<close>

definition demo_env :: "sock_event list \<Rightarrow> int \<Rightarrow> environment" where
  "demo_env lines code =
     \<lparr>e_proto = demo_protocol, e_peer = lines, e_pipe_fails = (\<lambda>h. False),
      e_rclone_write = [Some ''A'', Some ''B''], e_start_fails = False,
      e_child_stdout = [''O''], e_child_stderr = [''E''], e_child_code = code,
      e_files = {}\<rparr>"

definition init_fs :: sock_event where
  "init_fs = demo_line ''v1'' ''initKodoFsMountCmd'' ''fs''"

definition init_kodo :: "string \<Rightarrow> sock_event" where
  "init_kodo doc = demo_line ''v1'' ''initKodoMountCmd'' doc"

definition request_data :: sock_event where
  "request_data = demo_line ''v1'' ''requestDataCmd'' ''x''"

text \<open>The child's standard error is relayed: the second reader reads, checks and sends.\<close>

definition stderr_relay_run :: "action list" where
  "stderr_relay_run =
     [InScan, Forward, RunStart, ChildWrite StdoutPipe, ChildWrite StderrPipe,
      ReaderRead GoStderr, ReaderCheck GoStderr, Deliver (Reader GoStderr)]"

text \<open>A process is running when a second init command arrives and is handled.\<close>

definition second_init_before :: "action list" where
  "second_init_before = [InScan, Forward, RunStart, InScan]"

definition second_init_run :: "action list" where
  "second_init_run = second_init_before @ [Forward]"


text \<open>The child starts, exits and is reported; then \<open>handleCmd\<close> sees its context done.\<close>

definition exit_run :: "action list" where
  "exit_run =
     [InScan, Forward, RunStart, ChildExit, RunReturns, AfterRun, AwaiterCheck,
      Deliver ExitTask, AwaiterReturn, CmdCtxDone]"

text \<open>The session is torn down by a second init command before the child has exited.\<close>

definition closed_before_exit_run :: "action list" where
  "closed_before_exit_run =
     [InScan, Forward, RunStart, InScan, Forward, ChildExit, RunReturns, AfterRun,
      AwaiterCheck]"

text \<open>A reader is in its send when the peer closes the socket and the session is torn down.\<close>

definition panic_run :: "action list" where
  "panic_run =
     [InScan, Forward, RunStart, ChildWrite StdoutPipe, ReaderRead GoStdout,
      ReaderCheck GoStdout, InScan, OutCtxDone, CmdChanClosed, PanicSend (Reader GoStdout)]"

subsection \<open>Reading the trace\<close>

fun is_terminate :: "event \<Rightarrow> bool" where
  "is_terminate (Sent w (TerminateCmd n)) = True"
| "is_terminate e = False"

text \<open>The number of \<open>TerminateCmd\<close>s sent on the channel to the connection.\<close>

definition terminates :: "event list \<Rightarrow> nat" where
  "terminates tr = length (filter is_terminate tr)"

fun is_sent :: "event \<Rightarrow> bool" where
  "is_sent (Sent w v) = True"
| "is_sent e = False"

fun is_forwarded :: "event \<Rightarrow> bool" where
  "is_forwarded (Forwarded c) = True"
| "is_forwarded e = False"

text \<open>The commands handed to \<open>handleCmd\<close>, in order.\<close>

definition forwarded :: "event list \<Rightarrow> event list" where
  "forwarded tr = filter is_forwarded tr"

text \<open>What is sent is a \<open>ResponseDataCmd\<close> of a reader or a \<open>TerminateCmd\<close> of the
  goroutine that runs the process.\<close>

fun sent_ok :: "event \<Rightarrow> bool" where
  "sent_ok (Sent (Reader i) (ResponseDataCmd d e)) = True"
| "sent_ok (Sent ExitTask (TerminateCmd n)) = True"
| "sent_ok (Sent w v) = False"
| "sent_ok e = True"

text \<open>Something is sent after the session was marked closed.\<close>

definition sent_after_closed :: "event list \<Rightarrow> bool" where
  "sent_after_closed tr = list_ex is_sent (dropWhile (\<lambda>e. e \<noteq> MarkedClosed) tr)"


subsection \<open>Invariants of a session\<close>

fun before_send :: "exit_pc \<Rightarrow> bool" where
  "before_send E_Log = False"
| "before_send E_Done = False"
| "before_send pc = True"

fun awaiter_ok :: "exit_pc \<Rightarrow> bool" where
  "awaiter_ok (E_Send (TerminateCmd n)) = True"
| "awaiter_ok (E_Send v) = False"
| "awaiter_ok pc = True"

fun reader_ok :: "reader option \<Rightarrow> bool" where
  "reader_ok None = True"
| "reader_ok (Some r) =
     (case r_pc r of
        R_Send (ResponseDataCmd d e) \<Rightarrow> True
      | R_Send v \<Rightarrow> False
      | _ \<Rightarrow> True)"

definition session_inv :: "state \<Rightarrow> bool" where
  "session_inv s =
     ((execCmd s = None \<longrightarrow> awaiter s = E_Idle)
      \<and> (before_send (awaiter s) \<longrightarrow> terminates (trace s) = 0)
      \<and> terminates (trace s) \<le> 1
      \<and> reader_ok (readers s GoStdout) \<and> reader_ok (readers s GoStderr)
      \<and> awaiter_ok (awaiter s)
      \<and> list_all sent_ok (trace s)
      \<and> \<not> sent_after_closed (trace s)
      \<and> (MarkedClosed \<in> set (trace s) \<longrightarrow> cmdIn_closed s))"

text \<open>
  What belongs to \<open>handleConn\<close> and the socket, and the commands handed over so far: no
  goroutine of the session writes any of it.
\<close>

definition conn_view ::
  "state \<Rightarrow> in_pc \<times> out_pc \<times> bool \<times> bool \<times> bool \<times> int \<times> int \<times> event list" where
  "conn_view s =
     (inbound s, outbound s, conn_ctx_done s, cmdOut_closed s, conn_closed s,
      deadline s, now s, forwarded (trace s))"

text \<open>\<open>handleCmd\<close> has returned while the inbound loop is in \<open>cmdOut <- payload\<close>.\<close>

definition stuck_sending :: "cmd \<Rightarrow> state \<Rightarrow> bool" where
  "stuck_sending c s =
     (handler s = CMD_Done \<and> inbound s = IN_Send c \<and> outbound s = OUT_Select
      \<and> \<not> conn_ctx_done s \<and> \<not> conn_closed s)"

subsection \<open>What the readers relay\<close>

text \<open>A \<open>ResponseDataCmd\<close> that is sent carries \<open>isError\<close> false.\<close>

fun untagged :: "event \<Rightarrow> bool" where
  "untagged (Sent w (ResponseDataCmd d e)) = (\<not> e)"
| "untagged ev = True"

fun reader_untagged :: "reader option \<Rightarrow> bool" where
  "reader_untagged None = True"
| "reader_untagged (Some r) =
     (\<not> r_isError r \<and> (case r_pc r of R_Send (ResponseDataCmd d e) \<Rightarrow> \<not> e | _ \<Rightarrow> True))"

text \<open>
  Nothing is ever taken out of the pipe of the child's standard error: what the child has
  written to it is still in it.
\<close>

definition stderr_unread :: "environment \<Rightarrow> state \<Rightarrow> bool" where
  "stderr_unread e s =
     (stdin s \<noteq> Some StderrPipe \<and> stdout s \<noteq> Some StderrPipe
      \<and> pipe_data s StderrPipe @ child_stderr s = e_child_stderr e
      \<and> list_all untagged (trace s) \<and> awaiter_ok (awaiter s)
      \<and> reader_untagged (readers s GoStdout) \<and> reader_untagged (readers s GoStderr))"

subsection \<open>The order of cleanup, TerminateCmd and closing\<close>

fun is_removed :: "event \<Rightarrow> bool" where
  "is_removed (Removed p) = True"
| "is_removed ev = False"

text \<open>The \<open>TerminateCmd\<close> that is sent carries the exit code of the process.\<close>

fun code_ok :: "proc_state \<Rightarrow> event \<Rightarrow> bool" where
  "code_ok p (Sent w (TerminateCmd n)) = (n = ExitCode p)"
| "code_ok p ev = True"

text \<open>
  If a \<open>TerminateCmd\<close> is sent, then before it the cleanup was done (when one is
  registered) and the session was not marked closed.
\<close>

definition terminate_in_order :: "bool \<Rightarrow> event list \<Rightarrow> bool" where
  "terminate_in_order registered tr =
     (terminates tr = 0
      \<or> ((registered \<longrightarrow> list_ex is_removed (takeWhile (\<lambda>ev. \<not> is_terminate ev) tr))
         \<and> MarkedClosed \<notin> set (takeWhile (\<lambda>ev. \<not> is_terminate ev) tr)))"

fun after_wait :: "exit_pc \<Rightarrow> bool" where
  "after_wait E_Idle = False"
| "after_wait E_Run = False"
| "after_wait E_Wait = False"
| "after_wait pc = True"

fun after_cleanup :: "exit_pc \<Rightarrow> bool" where
  "after_cleanup E_AfterRun = False"
| "after_cleanup pc = after_wait pc"

fun send_ok :: "proc_state \<Rightarrow> exit_pc \<Rightarrow> bool" where
  "send_ok p (E_Send v) = (v = TerminateCmd (ExitCode p))"
| "send_ok p pc = True"

definition exit_inv :: "state \<Rightarrow> bool" where
  "exit_inv s =
     ((after_wait (awaiter s) \<longrightarrow> child_gone s)
      \<and> (after_cleanup (awaiter s) \<and> afterRun s \<noteq> None \<longrightarrow> list_ex is_removed (trace s))
      \<and> send_ok (proc s) (awaiter s)
      \<and> list_all (code_ok (proc s)) (trace s)
      \<and> terminate_in_order (afterRun s \<noteq> None) (trace s))"

section \<open>Properties\<close>

subsection \<open>Runs and observations\<close>

lemma run_append:
  "run (as @ bs) s = (case run as s of None \<Rightarrow> None | Some s' \<Rightarrow> run bs s')"
  by (induction as arbitrary: s) (auto split: option.splits)

lemma observeD: "observe f as s = Some v \<Longrightarrow> \<exists>s'. run as s = Some s' \<and> f s' = v"
  by (auto simp: observe_def)

lemma terminates_Nil [simp]: "terminates [] = 0"
  by (simp add: terminates_def)

lemma terminates_snoc [simp]:
  "terminates (tr @ [e]) = terminates tr + (if is_terminate e then 1 else 0)"
  by (simp add: terminates_def)

lemma forwarded_Nil [simp]: "forwarded [] = []"
  by (simp add: forwarded_def)

lemma forwarded_snoc [simp]:
  "forwarded (tr @ [e]) = forwarded tr @ (if is_forwarded e then [e] else [])"
  by (simp add: forwarded_def)

lemma sent_after_closed_Nil [simp]: "\<not> sent_after_closed []"
  by (simp add: sent_after_closed_def)

lemma sent_after_closed_snoc [simp]:
  "sent_after_closed (tr @ [e]) =
     (sent_after_closed tr \<or> (MarkedClosed \<in> set tr \<and> is_sent e))"
  by (induction tr) (auto simp: sent_after_closed_def list_ex_iff)

subsection \<open>The session invariant holds in every reachable state\<close>

lemma reader_ok_all:
  "reader_ok (readers s GoStdout) \<Longrightarrow> reader_ok (readers s GoStderr) \<Longrightarrow> reader_ok (readers s i)"
  by (cases i) auto

lemma inv_init: "session_inv (main_accept e t)"
  by (simp add: session_inv_def main_accept_def)

lemma inv_warn [simp]: "session_inv (warn m s) = session_inv s"
  by (simp add: session_inv_def warn_def)

lemma inv_handleConn_return [simp]: "session_inv (handleConn_return s) = session_inv s"
  by (simp add: session_inv_def handleConn_return_def)

lemma inv_marshalToConn [simp]: "session_inv (marshalToConn n c s) = session_inv s"
  by (simp add: session_inv_def marshalToConn_def warn_def)

lemma inv_handleConn_outbound [simp]: "session_inv (handleConn_outbound r s) = session_inv s"
  by (simp add: handleConn_outbound_def split: option.splits cmd.splits)

lemma inv_rcloneConfigPath [simp]: "session_inv (s\<lparr>rcloneConfigPath := p\<rparr>) = session_inv s"
  by (simp add: session_inv_def)

lemma inv_pipe_data [simp]: "session_inv (s\<lparr>pipe_data := f\<rparr>) = session_inv s"
  by (simp add: session_inv_def)

lemma inv_peer [simp]:
  "session_inv (s\<lparr>peer := ls\<rparr>) = session_inv s"
  "session_inv (s\<lparr>peer := ls, inbound := pc\<rparr>) = session_inv s"
  by (simp_all add: session_inv_def)

lemma inv_handleConn_scan:
  "session_inv s \<Longrightarrow> handleConn_scan s = Some s' \<Longrightarrow> session_inv s'"
  by (auto simp: handleConn_scan_def split: if_splits list.splits sock_event.splits sum.splits)

lemma inv_handleCmd_return: "session_inv s \<Longrightarrow> session_inv (handleCmd_return s)"
  by (simp add: session_inv_def handleCmd_return_def Let_def emit_def close_pipe_def
      split: option.splits)

lemma inv_execCommand: "session_inv s \<Longrightarrow> session_inv (snd (execCommand ec ar s))"
  by (simp add: session_inv_def execCommand_def Let_def go_outputReader_def warn_def)

lemma inv_writeRcloneConfig: "session_inv (snd (writeRcloneConfig s)) = session_inv s"
  by (simp add: session_inv_def writeRcloneConfig_def split: list.splits option.splits)

lemma inv_handleCmd_dispatch: "session_inv s \<Longrightarrow> session_inv (handleCmd_dispatch c s)"
proof (cases c)
  case (InitKodoFSMountCmd a)
  assume "session_inv s"
  then show ?thesis
    using InitKodoFSMountCmd inv_execCommand [of s c None]
    by (simp add: handleCmd_dispatch_def split_beta inv_handleCmd_return)
next
  case (InitKodoMountCmd a)
  assume i: "session_inv s"
  obtain r s1 where w: "writeRcloneConfig s = (r, s1)"
    by (cases "writeRcloneConfig s")
  have i1: "session_inv s1"
    using i inv_writeRcloneConfig [of s] w by simp
  show ?thesis
  proof (cases r)
    case None
    then show ?thesis
      using InitKodoMountCmd w i1 by (simp add: handleCmd_dispatch_def inv_handleCmd_return)
  next
    case (Some path)
    have "session_inv (snd (execCommand c (Some RemoveRcloneConfig) (s1\<lparr>rcloneConfigPath := path\<rparr>)))"
      using i1 by (intro inv_execCommand) simp
    then show ?thesis
      using InitKodoMountCmd w Some
      by (simp add: handleCmd_dispatch_def split_beta inv_handleCmd_return)
  qed
next
  case (RequestDataCmd d)
  assume i: "session_inv s"
  have "session_inv (emit (StdinWrite d) (s\<lparr>pipe_data := f\<rparr>))" for f
    using i by (simp add: session_inv_def emit_def)
  then show ?thesis
    using RequestDataCmd i
    by (simp add: handleCmd_dispatch_def inv_handleCmd_return split: option.splits)
next
  case (ResponseDataCmd d e)
  assume "session_inv s"
  then show ?thesis
    using ResponseDataCmd by (simp add: handleCmd_dispatch_def)
next
  case (TerminateCmd n)
  assume "session_inv s"
  then show ?thesis
    using TerminateCmd by (simp add: handleCmd_dispatch_def)
qed

lemma inv_set_reader_pc:
  "session_inv s \<Longrightarrow> (\<And>v. pc = R_Send v \<Longrightarrow> \<exists>d e. v = ResponseDataCmd d e) \<Longrightarrow>
   session_inv (set_reader_pc i pc s)"
  by (cases i; cases pc) (auto simp: session_inv_def set_reader_pc_def split: option.splits)

lemma inv_outputReader_read:
  assumes i: "session_inv s" and r: "outputReader_read i s = Some s'"
  shows "session_inv s'"
proof -
  have a: "session_inv (emit (Panic (Reader i)) (s\<lparr>crashed := True\<rparr>))"
    using i by (simp add: session_inv_def emit_def)
  have b: "session_inv (set_reader_pc i pc (s\<lparr>pipe_data := f\<rparr>))"
    if "pc = R_Done \<or> (\<exists>d. pc = R_Check d)" for pc f
    using i that by (intro inv_set_reader_pc) auto
  have c: "session_inv (set_reader_pc i R_Done s)"
    using i by (intro inv_set_reader_pc) auto
  show ?thesis
    using r a b c
    by (auto simp: outputReader_read_def split: option.splits if_splits list.splits)
qed

lemma inv_outputReader_fault: "session_inv s \<Longrightarrow> session_inv (outputReader_fault i s)"
  unfolding outputReader_fault_def by (intro inv_set_reader_pc) auto

lemma inv_outputReader_check: "session_inv s \<Longrightarrow> session_inv (outputReader_check i d s)"
  unfolding outputReader_check_def by (auto split: option.splits intro!: inv_set_reader_pc)

lemma inv_run_start: "session_inv s \<Longrightarrow> awaiter s = E_Run \<Longrightarrow> session_inv (run_start s)"
  by (auto simp: session_inv_def run_start_def emit_def split: option.splits)

lemma inv_run_returns:
  "session_inv s \<Longrightarrow> awaiter s = E_Wait \<Longrightarrow> run_returns s = Some s' \<Longrightarrow> session_inv s'"
  by (auto simp: session_inv_def run_returns_def split: if_splits)

lemma inv_call_afterRun:
  "session_inv s \<Longrightarrow> awaiter s = E_AfterRun \<Longrightarrow> session_inv (call_afterRun s)"
  by (auto simp: session_inv_def call_afterRun_def emit_def
      split: option.splits after_run.splits)

lemma inv_awaiter_check:
  "session_inv s \<Longrightarrow> awaiter s = E_Check \<Longrightarrow> session_inv (awaiter_check s)"
  by (auto simp: session_inv_def awaiter_check_def)

lemma inv_awaiter_return:
  "session_inv s \<Longrightarrow> awaiter s = E_Log \<Longrightarrow> session_inv (awaiter_return s)"
  by (auto simp: session_inv_def awaiter_return_def warn_def Let_def)

lemma inv_child_write: "session_inv s \<Longrightarrow> child_write h s = Some s' \<Longrightarrow> session_inv s'"
proof -
  have "session_inv (s\<lparr>child_stdout := x, pipe_data := f\<rparr>) = session_inv s"
    "session_inv (s\<lparr>child_stderr := x, pipe_data := f\<rparr>) = session_inv s" for x f
    by (simp_all add: session_inv_def)
  then show "session_inv s \<Longrightarrow> child_write h s = Some s' \<Longrightarrow> session_inv s'"
    by (auto simp: child_write_def split: if_splits list.splits)
qed

lemma inv_child_exit: "session_inv s \<Longrightarrow> child_exit s = Some s' \<Longrightarrow> session_inv s'"
  by (auto simp: session_inv_def child_exit_def split: if_splits)

lemma inv_panic_send: "session_inv s \<Longrightarrow> panic_send w s = Some s' \<Longrightarrow> session_inv s'"
  by (auto simp: session_inv_def panic_send_def emit_def split: if_splits option.splits)

lemma sending_reader:
  "session_inv s \<Longrightarrow> sending s (Reader i) = Some v \<Longrightarrow> \<exists>d e. v = ResponseDataCmd d e"
  using reader_ok_all [of s i]
  by (auto simp: session_inv_def sending_def reader_at_def
      split: option.splits reader_pc.splits cmd.splits)

lemma sending_awaiter:
  "session_inv s \<Longrightarrow> sending s ExitTask = Some v \<Longrightarrow>
   (\<exists>n. v = TerminateCmd n) \<and> awaiter s = E_Send v \<and> terminates (trace s) = 0"
  by (cases v) (auto simp: session_inv_def sending_def split: exit_pc.splits)

lemma deliverD:
  "deliver w s = Some s' \<Longrightarrow>
   \<exists>v. sending s w = Some v \<and> outbound s = OUT_Select \<and> \<not> cmdIn_closed s
     \<and> s' = handleConn_outbound (Some v) (emit (Sent w v) (after_send w s))"
  by (auto simp: deliver_def split: option.splits if_splits)

lemma inv_deliver:
  assumes i: "session_inv s" and d: "deliver w s = Some s'"
  shows "session_inv s'"
proof -
  from deliverD [OF d] obtain v where v: "sending s w = Some v" and o: "\<not> cmdIn_closed s"
    and s': "s' = handleConn_outbound (Some v) (emit (Sent w v) (after_send w s))"
    by blast
  show ?thesis
  proof (cases w)
    case (Reader j)
    from sending_reader [OF i] v Reader obtain d e where ve: "v = ResponseDataCmd d e"
      by blast
    have "session_inv (set_reader_pc j R_Read s)"
      using i by (intro inv_set_reader_pc) auto
    moreover have "trace (set_reader_pc j R_Read s) = trace s"
      "cmdIn_closed (set_reader_pc j R_Read s) = cmdIn_closed s"
      by (simp_all add: set_reader_pc_def split: option.splits)
    ultimately have "session_inv (emit (Sent w v) (set_reader_pc j R_Read s))"
      using o ve Reader i by (auto simp: session_inv_def emit_def)
    then show ?thesis
      using s' Reader by (simp add: after_send_def)
  next
    case ExitTask
    from sending_awaiter [OF i] v ExitTask obtain n where ve: "v = TerminateCmd n"
      and z: "terminates (trace s) = 0" and aw: "awaiter s = E_Send v"
      by blast
    have "session_inv (emit (Sent w v) (s\<lparr>awaiter := E_Log\<rparr>))"
      using o ve ExitTask i z aw by (auto simp: session_inv_def emit_def)
    then show ?thesis
      using s' ExitTask by (simp add: after_send_def)
  qed
qed

lemma inv_step:
  assumes i: "session_inv s" and st: "step a s = Some s'"
  shows "session_inv s'"
proof (cases a)
  case (Tick d)
  then show ?thesis
    using i st by (auto simp: step_def session_inv_def split: if_splits)
next
  case InScan
  then show ?thesis
    using i st by (auto simp: step_def split: if_splits dest: inv_handleConn_scan)
next
  case InJoin
  then show ?thesis
    using i st by (auto simp: step_def guard_def session_inv_def split: if_splits)
next
  case Forward
  have "session_inv (emit (Forwarded c) (s\<lparr>inbound := IN_Scan\<rparr>))" for c
    using i by (simp add: session_inv_def emit_def)
  then show ?thesis
    using st Forward
    by (auto simp: step_def guard_def split: if_splits in_pc.splits
        intro: inv_handleCmd_dispatch)
next
  case CmdChanClosed
  then show ?thesis
    using i st by (auto simp: step_def guard_def split: if_splits intro: inv_handleCmd_return)
next
  case CmdCtxDone
  then show ?thesis
    using i st by (auto simp: step_def guard_def split: if_splits intro: inv_handleCmd_return)
next
  case OutRecvClosed
  then show ?thesis
    using i st by (auto simp: step_def guard_def split: if_splits)
next
  case OutCtxDone
  then show ?thesis
    using i st by (auto simp: step_def guard_def session_inv_def split: if_splits)
next
  case (Deliver w)
  then show ?thesis
    using i st by (auto simp: step_def split: if_splits dest: inv_deliver)
next
  case (PanicSend w)
  then show ?thesis
    using i st by (auto simp: step_def split: if_splits dest: inv_panic_send)
next
  case (ReaderRead j)
  then show ?thesis
    using i st by (auto simp: step_def split: if_splits dest: inv_outputReader_read)
next
  case (ReaderFault j)
  then show ?thesis
    using i st
    by (auto simp: step_def guard_def split: if_splits intro: inv_outputReader_fault)
next
  case (ReaderCheck j)
  then show ?thesis
    using i st
    by (auto simp: step_def split: if_splits option.splits reader_pc.splits
        intro: inv_outputReader_check)
next
  case RunStart
  then show ?thesis
    using i st by (auto simp: step_def guard_def split: if_splits intro: inv_run_start)
next
  case RunReturns
  then show ?thesis
    using i st by (auto simp: step_def split: if_splits dest: inv_run_returns)
next
  case AfterRun
  then show ?thesis
    using i st by (auto simp: step_def guard_def split: if_splits intro: inv_call_afterRun)
next
  case AwaiterCheck
  then show ?thesis
    using i st by (auto simp: step_def guard_def split: if_splits intro: inv_awaiter_check)
next
  case AwaiterReturn
  then show ?thesis
    using i st by (auto simp: step_def guard_def split: if_splits intro: inv_awaiter_return)
next
  case (ChildWrite h)
  then show ?thesis
    using i st by (auto simp: step_def split: if_splits dest: inv_child_write)
next
  case ChildExit
  then show ?thesis
    using i st by (auto simp: step_def split: if_splits dest: inv_child_exit)
qed

lemma inv_run: "session_inv s \<Longrightarrow> run as s = Some s' \<Longrightarrow> session_inv s'"
  by (induction as arbitrary: s) (auto split: option.splits dest: inv_step)

subsection \<open>What the session leaves alone\<close>

lemma view_prims [simp]:
  "conn_view (warn m s) = conn_view s"
  "\<not> is_forwarded e \<Longrightarrow> conn_view (emit e s) = conn_view s"
  "conn_view (close_pipe ph s) = conn_view s"
  "conn_view (set_reader_pc i pc s) = conn_view s"
  "conn_view (go_outputReader i n out err s) = conn_view s"
  "conn_view (marshalToConn n c s) = conn_view s"
  by (simp_all add: conn_view_def warn_def emit_def close_pipe_def set_reader_pc_def
      go_outputReader_def marshalToConn_def split: option.splits)

lemma handler_prims [simp]:
  "handler (warn m s) = handler s"
  "handler (emit e s) = handler s"
  "handler (close_pipe ph s) = handler s"
  "handler (set_reader_pc i pc s) = handler s"
  "handler (go_outputReader i n out err s) = handler s"
  "handler (marshalToConn n c s) = handler s"
  "handler (handleConn_return s) = handler s"
  by (simp_all add: warn_def emit_def close_pipe_def set_reader_pc_def
      go_outputReader_def marshalToConn_def handleConn_return_def split: option.splits)

lemma view_handleConn_outbound [simp]:
  "conn_view (handleConn_outbound r s) = conn_view s"
  "handler (handleConn_outbound r s) = handler s"
  by (simp_all add: handleConn_outbound_def split: option.splits cmd.splits)

lemma view_handleCmd_return [simp]: "conn_view (handleCmd_return s) = conn_view s"
proof -
  have "conn_view (s\<lparr>isClosed := 1\<rparr>) = conn_view s"
    by (simp add: conn_view_def)
  moreover have "conn_view (u\<lparr>ctx_done := True, cmdIn_closed := True, handler := CMD_Done\<rparr>)
      = conn_view u" for u
    by (simp add: conn_view_def)
  ultimately show ?thesis
    by (simp add: handleCmd_return_def Let_def)
qed

lemma view_execCommand [simp]: "conn_view (snd (execCommand ec ar s)) = conn_view s"
proof -
  have a: "conn_view (u\<lparr>execCmd := x\<rparr>) = conn_view u"
    "conn_view (u\<lparr>stdin := y\<rparr>) = conn_view u"
    "conn_view (u\<lparr>stdout := y\<rparr>) = conn_view u"
    "conn_view (u\<lparr>stderr := y\<rparr>) = conn_view u"
    "conn_view (u\<lparr>afterRun := z, awaiter := pc\<rparr>) = conn_view u" for u x y z pc
    by (simp_all add: conn_view_def)
  show ?thesis
    by (simp add: execCommand_def Let_def a)
qed

lemma view_writeRcloneConfig [simp]: "conn_view (snd (writeRcloneConfig s)) = conn_view s"
  by (simp add: writeRcloneConfig_def conn_view_def split: list.splits option.splits)

lemma view_handleCmd_dispatch [simp]: "conn_view (handleCmd_dispatch c s) = conn_view s"
proof -
  have a: "conn_view (u\<lparr>rcloneConfigPath := p\<rparr>) = conn_view u"
    "conn_view (u\<lparr>pipe_data := f\<rparr>) = conn_view u" for u p f
    by (simp_all add: conn_view_def)
  have b: "conn_view (snd (execCommand c ar (snd (writeRcloneConfig s)\<lparr>rcloneConfigPath := p\<rparr>)))
      = conn_view s" for ar p
    by (simp add: a)
  show ?thesis
    by (cases c) (simp_all add: handleCmd_dispatch_def split_beta a b split: option.splits)
qed

lemma view_outputReader_read:
  "outputReader_read i s = Some s' \<Longrightarrow> conn_view s' = conn_view s \<and> handler s' = handler s"
proof -
  have a: "conn_view (s\<lparr>pipe_data := f\<rparr>) = conn_view s"
    "conn_view (s\<lparr>crashed := True\<rparr>) = conn_view s" for f
    by (simp_all add: conn_view_def)
  assume "outputReader_read i s = Some s'"
  then show ?thesis
    by (auto simp: outputReader_read_def a split: option.splits if_splits list.splits)
qed

lemma view_outputReader [simp]:
  "conn_view (outputReader_fault i s) = conn_view s"
  "handler (outputReader_fault i s) = handler s"
  "conn_view (outputReader_check i d s) = conn_view s"
  "handler (outputReader_check i d s) = handler s"
  by (simp_all add: outputReader_fault_def outputReader_check_def split: option.splits)

lemma view_awaiter [simp]:
  "conn_view (run_start s) = conn_view s"
  "handler (run_start s) = handler s"
  "conn_view (call_afterRun s) = conn_view s"
  "handler (call_afterRun s) = handler s"
  "conn_view (awaiter_check s) = conn_view s"
  "handler (awaiter_check s) = handler s"
  "conn_view (awaiter_return s) = conn_view s"
  "handler (awaiter_return s) = handler s"
  "conn_view (after_send w s) = conn_view s"
  "handler (after_send w s) = handler s"
  by (simp_all add: run_start_def call_afterRun_def awaiter_check_def awaiter_return_def
      after_send_def conn_view_def emit_def warn_def set_reader_pc_def Let_def
      split: option.splits after_run.splits sender.splits)

lemma view_run_returns:
  "run_returns s = Some s' \<Longrightarrow> conn_view s' = conn_view s \<and> handler s' = handler s"
  by (auto simp: run_returns_def conn_view_def split: if_splits)

lemma view_child:
  "child_write h s = Some s' \<Longrightarrow> conn_view s' = conn_view s \<and> handler s' = handler s"
  "child_exit s = Some s' \<Longrightarrow> conn_view s' = conn_view s \<and> handler s' = handler s"
  by (auto simp: child_write_def child_exit_def conn_view_def split: if_splits list.splits)

lemma view_panic_send:
  "panic_send w s = Some s' \<Longrightarrow> conn_view s' = conn_view s \<and> handler s' = handler s"
  by (auto simp: panic_send_def conn_view_def emit_def split: if_splits option.splits)

lemma view_deliver:
  "deliver w s = Some s' \<Longrightarrow> conn_view s' = conn_view s \<and> handler s' = handler s"
  by (auto dest!: deliverD)

text \<open>
  A step of the session or of the child leaves the connection's part as it is; the
  inbound loop, the outbound goroutine's return and the clock are the exceptions.
\<close>

lemma step_session_view:
  assumes st: "step a s = Some s'"
    and a: "a \<noteq> InScan" "a \<noteq> InJoin" "a \<noteq> Forward" "a \<noteq> OutCtxDone" "\<forall>d. a \<noteq> Tick d"
  shows "conn_view s' = conn_view s"
proof (cases a)
  case (Deliver w)
  then show ?thesis using st by (auto simp: step_def split: if_splits dest: view_deliver)
next
  case (PanicSend w)
  then show ?thesis using st by (auto simp: step_def split: if_splits dest: view_panic_send)
next
  case (ReaderRead j)
  then show ?thesis using st by (auto simp: step_def split: if_splits dest: view_outputReader_read)
next
  case (ReaderCheck j)
  then show ?thesis
    using st by (auto simp: step_def split: if_splits option.splits reader_pc.splits)
next
  case RunReturns
  then show ?thesis using st by (auto simp: step_def split: if_splits dest: view_run_returns)
next
  case (ChildWrite h)
  then show ?thesis using st by (auto simp: step_def split: if_splits dest: view_child)
next
  case ChildExit
  then show ?thesis using st by (auto simp: step_def split: if_splits dest: view_child)
qed (use st a in \<open>auto simp: step_def guard_def split: if_splits\<close>)

lemma step_handler_done:
  assumes st: "step a s = Some s'" and h: "handler s = CMD_Done"
  shows "handler s' = CMD_Done"
proof (cases a)
  case InScan
  then show ?thesis
    using st h
    by (auto simp: step_def handleConn_scan_def
        split: if_splits list.splits sock_event.splits sum.splits)
next
  case (Deliver w)
  then show ?thesis using st h by (auto simp: step_def split: if_splits dest: view_deliver)
next
  case (PanicSend w)
  then show ?thesis using st h by (auto simp: step_def split: if_splits dest: view_panic_send)
next
  case (ReaderRead j)
  then show ?thesis
    using st h by (auto simp: step_def split: if_splits dest: view_outputReader_read)
next
  case (ReaderCheck j)
  then show ?thesis
    using st h by (auto simp: step_def split: if_splits option.splits reader_pc.splits)
next
  case RunReturns
  then show ?thesis using st h by (auto simp: step_def split: if_splits dest: view_run_returns)
next
  case (ChildWrite p)
  then show ?thesis using st h by (auto simp: step_def split: if_splits dest: view_child)
next
  case ChildExit
  then show ?thesis using st h by (auto simp: step_def split: if_splits dest: view_child)
qed (use st h in \<open>auto simp: step_def guard_def split: if_splits in_pc.splits\<close>)

lemma conn_viewD:
  "conn_view s' = conn_view s \<Longrightarrow>
   inbound s' = inbound s \<and> outbound s' = outbound s \<and> conn_ctx_done s' = conn_ctx_done s
   \<and> cmdOut_closed s' = cmdOut_closed s \<and> conn_closed s' = conn_closed s
   \<and> deadline s' = deadline s \<and> now s' = now s \<and> forwarded (trace s') = forwarded (trace s)"
  by (simp add: conn_view_def)

lemma handleConn_scan_frame:
  "handleConn_scan s = Some s' \<Longrightarrow> deadline s' = deadline s \<and> now s' = now s"
  by (auto simp: handleConn_scan_def handleConn_return_def warn_def
      split: if_splits list.splits sock_event.splits sum.splits)

lemma step_deadline:
  assumes st: "step a s = Some s'"
  shows "deadline s' = deadline s \<and> now s \<le> now s'"
proof -
  consider (tick) d where "a = Tick d" | (scan) "a = InScan" | (join) "a = InJoin"
    | (fwd) "a = Forward" | (out) "a = OutCtxDone"
    | (other) "a \<noteq> InScan" "a \<noteq> InJoin" "a \<noteq> Forward" "a \<noteq> OutCtxDone" "\<forall>d. a \<noteq> Tick d"
    by blast
  then show ?thesis
  proof cases
    case tick
    then show ?thesis using st by (auto simp: step_def split: if_splits)
  next
    case scan
    then show ?thesis
      using st by (auto simp: step_def split: if_splits dest: handleConn_scan_frame)
  next
    case join
    then show ?thesis using st by (auto simp: step_def guard_def split: if_splits)
  next
    case fwd
    have "deadline (handleCmd_dispatch c u) = deadline u \<and> now (handleCmd_dispatch c u) = now u"
      for c u
      using conn_viewD [OF view_handleCmd_dispatch [of c u]] by simp
    then show ?thesis
      using st fwd
      by (auto simp: step_def guard_def emit_def split: if_splits in_pc.splits)
  next
    case out
    then show ?thesis using st by (auto simp: step_def guard_def split: if_splits)
  next
    case other
    from conn_viewD [OF step_session_view [OF st other]] show ?thesis by simp
  qed
qed

lemma run_deadline: "run as s = Some s' \<Longrightarrow> deadline s' = deadline s \<and> now s \<le> now s'"
proof (induction as arbitrary: s)
  case Nil
  then show ?case by simp
next
  case (Cons a as)
  then obtain u where u: "step a s = Some u" and r: "run as u = Some s'"
    by (auto split: option.splits)
  from step_deadline [OF u] Cons.IH [OF r] show ?case by simp
qed



text \<open>
  When \<open>handleCmd\<close> has returned and the inbound loop is in its channel send, the send
  never completes: the connection stays as it is, whatever else happens.
\<close>

lemma step_stuck:
  assumes st: "step a s = Some s'" and k: "stuck_sending c s"
  shows "stuck_sending c s'"
proof -
  consider (tick) d where "a = Tick d" | (scan) "a = InScan" | (join) "a = InJoin"
    | (fwd) "a = Forward" | (out) "a = OutCtxDone"
    | (other) "a \<noteq> InScan" "a \<noteq> InJoin" "a \<noteq> Forward" "a \<noteq> OutCtxDone" "\<forall>d. a \<noteq> Tick d"
    by blast
  then show ?thesis
  proof cases
    case tick
    then show ?thesis using st k by (auto simp: step_def stuck_sending_def split: if_splits)
  next
    case scan
    then show ?thesis using st k by (auto simp: step_def stuck_sending_def split: if_splits)
  next
    case join
    then show ?thesis
      using st k by (auto simp: step_def guard_def stuck_sending_def split: if_splits)
  next
    case fwd
    then show ?thesis
      using st k by (auto simp: step_def guard_def stuck_sending_def split: if_splits)
  next
    case out
    then show ?thesis
      using st k by (auto simp: step_def guard_def stuck_sending_def split: if_splits)
  next
    case other
    from conn_viewD [OF step_session_view [OF st other]] step_handler_done [OF st] k
    show ?thesis by (simp add: stuck_sending_def)
  qed
qed

lemma run_stuck: "run as s = Some s' \<Longrightarrow> stuck_sending c s \<Longrightarrow> stuck_sending c s'"
proof (induction as arbitrary: s)
  case Nil
  then show ?case by simp
next
  case (Cons a as)
  then obtain u where u: "step a s = Some u" and r: "run as u = Some s'"
    by (auto split: option.splits)
  from Cons.IH [OF r step_stuck [OF u Cons.prems(2)]] show ?case .
qed

text \<open>
  The outbound goroutine on a closed channel: the receive yields nil at once, no case of
  the type switch matches, and the loop comes back to the same \<open>select\<close>.
\<close>

lemma spin:
  "\<not> crashed s \<Longrightarrow> outbound s = OUT_Select \<Longrightarrow> cmdIn_closed s \<Longrightarrow>
   run (replicate n OutRecvClosed) s = Some s"
  by (induction n) (simp_all add: step_def guard_def handleConn_outbound_def)

text \<open>The definitions a concrete run unfolds.\<close>

lemmas model_defs =
  observe_def pipe_content_def pipe_is_closed_def reader_of_def
  demo_protocol_def demo_line_def demo_env_def init_fs_def init_kodo_def request_data_def
  main_accept_def Second_def step_def guard_def
  conn_usable_def warn_def emit_def marshalToConn_def handleConn_outbound_def
  handleConn_return_def handleConn_scan_def handleConn_decode_def decode_payload_def
  decode_warning_def close_pipe_def handleCmd_return_def go_outputReader_def execCommand_def
  writeRcloneConfig_def child_gone_def handleCmd_dispatch_def set_reader_pc_def reader_at_def
  outputReader_read_def outputReader_fault_def outputReader_check_def run_start_def
  run_returns_def call_afterRun_def ExitCode_def awaiter_check_def awaiter_return_def
  sending_def after_send_def deliver_def panic_send_def child_write_def child_exit_def

subsection \<open>The pipe of the child's standard error is never read\<close>

lemma reader_untagged_all:
  "reader_untagged (readers s GoStdout) \<Longrightarrow> reader_untagged (readers s GoStderr) \<Longrightarrow>
   reader_untagged (readers s i)"
  by (cases i) auto

lemma unread_init: "stderr_unread e (main_accept e t)"
  by (simp add: stderr_unread_def main_accept_def)

lemma unread_simps [simp]:
  "stderr_unread e (warn m s) = stderr_unread e s"
  "stderr_unread e (handleConn_return s) = stderr_unread e s"
  "stderr_unread e (marshalToConn n c s) = stderr_unread e s"
  "stderr_unread e (close_pipe ph s) = stderr_unread e s"
  "stderr_unread e (s\<lparr>rcloneConfigPath := p\<rparr>) = stderr_unread e s"
  "stderr_unread e (s\<lparr>inbound := pc\<rparr>) = stderr_unread e s"
  "stderr_unread e (s\<lparr>peer := ls\<rparr>) = stderr_unread e s"
  "stderr_unread e (s\<lparr>crashed := b\<rparr>) = stderr_unread e s"
  "stderr_unread e (s\<lparr>isClosed := w\<rparr>) = stderr_unread e s"
  by (simp_all add: stderr_unread_def warn_def handleConn_return_def marshalToConn_def
      close_pipe_def split: option.splits)

lemma unread_emit [simp]:
  "untagged ev \<Longrightarrow> stderr_unread e (emit ev s) = stderr_unread e s"
  by (simp add: stderr_unread_def emit_def)

lemma unread_handleConn_outbound [simp]:
  "stderr_unread e (handleConn_outbound r s) = stderr_unread e s"
  by (simp add: handleConn_outbound_def split: option.splits cmd.splits)

lemma unread_handleConn_scan:
  "stderr_unread e s \<Longrightarrow> handleConn_scan s = Some s' \<Longrightarrow> stderr_unread e s'"
  by (auto simp: handleConn_scan_def split: if_splits list.splits sock_event.splits sum.splits)

lemma unread_handleCmd_return: "stderr_unread e s \<Longrightarrow> stderr_unread e (handleCmd_return s)"
proof -
  have "stderr_unread e (u\<lparr>ctx_done := True, cmdIn_closed := True, handler := CMD_Done\<rparr>)
      = stderr_unread e u" for u
    by (simp add: stderr_unread_def)
  then show "stderr_unread e s \<Longrightarrow> stderr_unread e (handleCmd_return s)"
    by (simp add: handleCmd_return_def Let_def)
qed

lemma unread_execCommand: "stderr_unread e s \<Longrightarrow> stderr_unread e (snd (execCommand ec ar s))"
  by (simp add: stderr_unread_def execCommand_def Let_def go_outputReader_def warn_def)

lemma unread_writeRcloneConfig [simp]:
  "stderr_unread e (snd (writeRcloneConfig s)) = stderr_unread e s"
  by (simp add: stderr_unread_def writeRcloneConfig_def split: list.splits option.splits)

lemma unread_handleCmd_dispatch:
  assumes i: "stderr_unread e s"
  shows "stderr_unread e (handleCmd_dispatch c s)"
proof (cases c)
  case (InitKodoFSMountCmd a)
  then show ?thesis
    using i unread_execCommand [of e s c None]
    by (simp add: handleCmd_dispatch_def split_beta unread_handleCmd_return)
next
  case (InitKodoMountCmd a)
  have "stderr_unread e (snd (execCommand c (Some RemoveRcloneConfig)
      (snd (writeRcloneConfig s)\<lparr>rcloneConfigPath := p\<rparr>)))" for p
    using i by (intro unread_execCommand) simp
  then show ?thesis
    using i InitKodoMountCmd
    by (simp add: handleCmd_dispatch_def split_beta unread_handleCmd_return
        split: option.splits)
next
  case (RequestDataCmd d)
  have "stderr_unread e (s\<lparr>pipe_data := (pipe_data s)(h := pipe_data s h @ [d])\<rparr>)"
    if "stdin s = Some h" for h
    using i that by (auto simp: stderr_unread_def)
  then show ?thesis
    using i RequestDataCmd
    by (simp add: handleCmd_dispatch_def unread_handleCmd_return split: option.splits)
next
  case (ResponseDataCmd d b)
  then show ?thesis using i by (simp add: handleCmd_dispatch_def)
next
  case (TerminateCmd n)
  then show ?thesis using i by (simp add: handleCmd_dispatch_def)
qed

lemma pc_untagged:
  "(\<And>d b. pc = R_Send (ResponseDataCmd d b) \<Longrightarrow> \<not> b) \<Longrightarrow>
   (case pc of R_Send (ResponseDataCmd d b) \<Rightarrow> \<not> b | _ \<Rightarrow> True)"
  by (cases pc) (auto split: cmd.splits)

lemma unread_set_reader_pc:
  assumes i: "stderr_unread e s"
    and pc: "\<And>d b. pc = R_Send (ResponseDataCmd d b) \<Longrightarrow> \<not> b"
  shows "stderr_unread e (set_reader_pc i pc s)"
proof (cases "readers s i")
  case None
  then show ?thesis
    using i by (simp add: set_reader_pc_def)
next
  case (Some r)
  have "\<not> r_isError r"
    using reader_untagged_all [of s i] i Some by (simp add: stderr_unread_def)
  moreover have "case pc of R_Send (ResponseDataCmd d b) \<Rightarrow> \<not> b | _ \<Rightarrow> True"
    by (rule pc_untagged) (rule pc)
  ultimately have "reader_untagged (Some (r\<lparr>r_pc := pc\<rparr>))"
    by simp
  then show ?thesis
    using i Some by (cases i) (simp_all add: stderr_unread_def set_reader_pc_def)
qed

lemma unread_outputReader_read:
  assumes i: "stderr_unread e s" and r: "outputReader_read i s = Some s'"
  shows "stderr_unread e s'"
proof -
  have b: "stderr_unread e (set_reader_pc i pc (s\<lparr>pipe_data := (pipe_data s)(h := x)\<rparr>))"
    if "stdout s = Some h" "pc = R_Done \<or> (\<exists>d. pc = R_Check d)" for pc h x
  proof -
    have "stderr_unread e (s\<lparr>pipe_data := (pipe_data s)(h := x)\<rparr>)"
      using i that by (auto simp: stderr_unread_def)
    then show ?thesis
      using that by (intro unread_set_reader_pc) auto
  qed
  have c: "stderr_unread e (set_reader_pc i R_Done s)"
    using i by (intro unread_set_reader_pc) auto
  show ?thesis
    using r i b c
    by (auto simp: outputReader_read_def split: option.splits if_splits list.splits)
qed

lemma unread_outputReader_fault: "stderr_unread e s \<Longrightarrow> stderr_unread e (outputReader_fault i s)"
  unfolding outputReader_fault_def by (intro unread_set_reader_pc) auto

lemma unread_outputReader_check:
  assumes i: "stderr_unread e s"
  shows "stderr_unread e (outputReader_check i d s)"
proof -
  have "\<not> r_isError r" if "readers s i = Some r" for r
    using reader_untagged_all [of s i] i that by (simp add: stderr_unread_def)
  then show ?thesis
    unfolding outputReader_check_def
    using i by (auto split: option.splits intro!: unread_set_reader_pc)
qed

lemma unread_awaiter:
  "stderr_unread e s \<Longrightarrow> stderr_unread e (run_start s)"
  "stderr_unread e s \<Longrightarrow> stderr_unread e (call_afterRun s)"
  "stderr_unread e s \<Longrightarrow> stderr_unread e (awaiter_check s)"
  "stderr_unread e s \<Longrightarrow> stderr_unread e (awaiter_return s)"
  by (auto simp: stderr_unread_def run_start_def call_afterRun_def awaiter_check_def
      awaiter_return_def emit_def warn_def Let_def split: option.splits after_run.splits)

lemma unread_partial:
  "stderr_unread e s \<Longrightarrow> run_returns s = Some s' \<Longrightarrow> stderr_unread e s'"
  "stderr_unread e s \<Longrightarrow> child_exit s = Some s' \<Longrightarrow> stderr_unread e s'"
  "stderr_unread e s \<Longrightarrow> panic_send w s = Some s' \<Longrightarrow> stderr_unread e s'"
  by (auto simp: stderr_unread_def run_returns_def child_exit_def panic_send_def emit_def
      split: if_splits option.splits)

lemma unread_child_write:
  "stderr_unread e s \<Longrightarrow> child_write h s = Some s' \<Longrightarrow> stderr_unread e s'"
  by (auto simp: stderr_unread_def child_write_def split: if_splits list.splits)

lemma unread_deliver:
  assumes i: "stderr_unread e s" and d: "deliver w s = Some s'"
  shows "stderr_unread e s'"
proof -
  from deliverD [OF d] obtain v where v: "sending s w = Some v"
    and s': "s' = handleConn_outbound (Some v) (emit (Sent w v) (after_send w s))"
    by blast
  show ?thesis
  proof (cases w)
    case (Reader j)
    have u: "untagged (Sent w v)"
      using reader_untagged_all [of s j] i v Reader
      by (auto simp: stderr_unread_def sending_def reader_at_def
          split: option.splits reader_pc.splits cmd.splits)
    have "stderr_unread e (set_reader_pc j R_Read s)"
      using i by (intro unread_set_reader_pc) auto
    then show ?thesis
      using s' Reader u by (simp add: after_send_def)
  next
    case ExitTask
    have u: "untagged (Sent w v)"
      using v ExitTask i
      by (cases v) (auto simp: sending_def stderr_unread_def split: exit_pc.splits)
    have "stderr_unread e (s\<lparr>awaiter := E_Log\<rparr>)"
      using i by (simp add: stderr_unread_def)
    then show ?thesis
      using s' ExitTask u by (simp add: after_send_def)
  qed
qed

lemma unread_step:
  assumes i: "stderr_unread e s" and st: "step a s = Some s'"
  shows "stderr_unread e s'"
proof (cases a)
  case (Tick d)
  then show ?thesis
    using i st by (auto simp: step_def stderr_unread_def split: if_splits)
next
  case InScan
  then show ?thesis
    using i st by (auto simp: step_def split: if_splits dest: unread_handleConn_scan)
next
  case Forward
  then show ?thesis
    using i st
    by (auto simp: step_def guard_def split: if_splits in_pc.splits
        intro!: unread_handleCmd_dispatch)
next
  case CmdChanClosed
  then show ?thesis
    using i st by (auto simp: step_def guard_def split: if_splits intro: unread_handleCmd_return)
next
  case CmdCtxDone
  then show ?thesis
    using i st by (auto simp: step_def guard_def split: if_splits intro: unread_handleCmd_return)
next
  case OutCtxDone
  then show ?thesis
    using i st by (auto simp: step_def guard_def stderr_unread_def split: if_splits)
next
  case (Deliver w)
  then show ?thesis
    using i st by (auto simp: step_def split: if_splits dest: unread_deliver)
next
  case (PanicSend w)
  then show ?thesis
    using i st by (auto simp: step_def split: if_splits dest: unread_partial)
next
  case (ReaderRead j)
  then show ?thesis
    using i st by (auto simp: step_def split: if_splits dest: unread_outputReader_read)
next
  case (ReaderFault j)
  then show ?thesis
    using i st
    by (auto simp: step_def guard_def split: if_splits intro: unread_outputReader_fault)
next
  case (ReaderCheck j)
  then show ?thesis
    using i st
    by (auto simp: step_def split: if_splits option.splits reader_pc.splits
        intro: unread_outputReader_check)
next
  case RunReturns
  then show ?thesis
    using i st by (auto simp: step_def split: if_splits dest: unread_partial)
next
  case (ChildWrite h)
  then show ?thesis
    using i st by (auto simp: step_def split: if_splits dest: unread_child_write)
next
  case ChildExit
  then show ?thesis
    using i st by (auto simp: step_def split: if_splits dest: unread_partial)
qed (use i st in \<open>auto simp: step_def guard_def split: if_splits intro: unread_awaiter\<close>)

lemma unread_run: "stderr_unread e s \<Longrightarrow> run as s = Some s' \<Longrightarrow> stderr_unread e s'"
  by (induction as arbitrary: s) (auto split: option.splits dest: unread_step)

subsection \<open>Cleanup comes before the TerminateCmd, closing after it\<close>

lemma terminates_0_iff: "terminates tr = 0 \<longleftrightarrow> (\<forall>ev \<in> set tr. \<not> is_terminate ev)"
  by (induction tr) (auto simp: terminates_def)

lemma order_Nil [simp]: "terminate_in_order reg []"
  by (simp add: terminate_in_order_def)

lemma order_none: "terminates tr = 0 \<Longrightarrow> terminate_in_order reg tr"
  by (simp add: terminate_in_order_def)

lemma order_snoc:
  "terminate_in_order reg (tr @ [ev]) =
     (if 0 < terminates tr then terminate_in_order reg tr
      else if is_terminate ev then (reg \<longrightarrow> list_ex is_removed tr) \<and> MarkedClosed \<notin> set tr
      else True)"
proof (cases "terminates tr = 0")
  case True
  then have "takeWhile (\<lambda>ev. \<not> is_terminate ev) (tr @ [ev]) = tr @ takeWhile (\<lambda>ev. \<not> is_terminate ev) [ev]"
    by (simp add: terminates_0_iff takeWhile_append2)
  then show ?thesis
    using True by (auto simp: terminate_in_order_def)
next
  case False
  then obtain x where "x \<in> set tr" "is_terminate x"
    by (auto simp: terminates_0_iff)
  then have "takeWhile (\<lambda>ev. \<not> is_terminate ev) (tr @ [ev]) = takeWhile (\<lambda>ev. \<not> is_terminate ev) tr"
    by (intro takeWhile_append1) auto
  then show ?thesis
    using False by (simp add: terminate_in_order_def)
qed

lemma order_emit:
  "\<not> is_terminate ev \<Longrightarrow> terminate_in_order reg tr \<Longrightarrow> terminate_in_order reg (tr @ [ev])"
  by (simp add: order_snoc)

lemma code_ok_none: "terminates tr = 0 \<Longrightarrow> list_all (code_ok p) tr"
proof (induction tr)
  case Nil
  then show ?case by simp
next
  case (Cons ev tr)
  then have "\<not> is_terminate ev" "terminates tr = 0"
    by (auto simp: terminates_0_iff)
  then show ?case
    using Cons.IH by (cases ev rule: is_terminate.cases) auto
qed

lemma code_ok_other: "\<not> is_terminate ev \<Longrightarrow> code_ok p ev"
  by (cases ev rule: is_terminate.cases) auto


lemma exit_simps [simp]:
  "exit_inv (warn m s) = exit_inv s"
  "exit_inv (handleConn_return s) = exit_inv s"
  "exit_inv (marshalToConn n c s) = exit_inv s"
  "exit_inv (close_pipe ph s) = exit_inv s"
  "exit_inv (set_reader_pc i pc s) = exit_inv s"
  "exit_inv (go_outputReader i n out err s) = exit_inv s"
  "exit_inv (s\<lparr>rcloneConfigPath := p\<rparr>) = exit_inv s"
  "exit_inv (s\<lparr>inbound := ipc\<rparr>) = exit_inv s"
  "exit_inv (s\<lparr>peer := ls\<rparr>) = exit_inv s"
  "exit_inv (s\<lparr>crashed := b\<rparr>) = exit_inv s"
  "exit_inv (s\<lparr>isClosed := w\<rparr>) = exit_inv s"
  "exit_inv (s\<lparr>pipe_data := f\<rparr>) = exit_inv s"
  "exit_inv (s\<lparr>pipe_closed := g\<rparr>) = exit_inv s"
  "exit_inv (s\<lparr>execCmd := x\<rparr>) = exit_inv s"
  "exit_inv (s\<lparr>stdin := y\<rparr>) = exit_inv s"
  "exit_inv (s\<lparr>stdout := y\<rparr>) = exit_inv s"
  "exit_inv (s\<lparr>stderr := y\<rparr>) = exit_inv s"
  by (simp_all add: exit_inv_def child_gone_def warn_def handleConn_return_def
      marshalToConn_def close_pipe_def set_reader_pc_def go_outputReader_def
      split: option.splits)

lemma exit_emit:
  "\<not> is_terminate ev \<Longrightarrow> exit_inv s \<Longrightarrow> exit_inv (emit ev s)"
  by (auto simp: exit_inv_def emit_def child_gone_def code_ok_other order_emit list_ex_iff)

lemma exit_handleConn_outbound [simp]: "exit_inv (handleConn_outbound r s) = exit_inv s"
  by (simp add: handleConn_outbound_def split: option.splits cmd.splits)

lemma exit_handleConn_scan: "exit_inv s \<Longrightarrow> handleConn_scan s = Some s' \<Longrightarrow> exit_inv s'"
  by (auto simp: handleConn_scan_def split: if_splits list.splits sock_event.splits sum.splits)

lemma exit_handleCmd_return: "exit_inv s \<Longrightarrow> exit_inv (handleCmd_return s)"
proof -
  assume i: "exit_inv s"
  have a: "exit_inv (u\<lparr>ctx_done := True, cmdIn_closed := True, handler := CMD_Done\<rparr>)
      = exit_inv u" for u
    by (simp add: exit_inv_def child_gone_def)
  have "exit_inv (emit MarkedClosed (s\<lparr>isClosed := 1\<rparr>))"
    using i by (intro exit_emit) simp_all
  then show ?thesis
    by (simp add: handleCmd_return_def Let_def a)
qed

lemma trace_prims [simp]:
  "trace (warn m s) = trace s"
  "trace (close_pipe ph s) = trace s"
  "trace (set_reader_pc i pc s) = trace s"
  "trace (go_outputReader i n out err s) = trace s"
  by (simp_all add: warn_def close_pipe_def set_reader_pc_def go_outputReader_def
      split: option.splits)

lemma exit_spawn:
  "terminates (trace u) = 0 \<Longrightarrow> exit_inv (u\<lparr>afterRun := ar, awaiter := E_Run\<rparr>)"
  by (simp add: exit_inv_def code_ok_none order_none)

lemma exit_execCommand:
  assumes i: "exit_inv s" and j: "session_inv s"
  shows "exit_inv (snd (execCommand ec ar s))"
proof (cases "execCmd s")
  case (Some x)
  then show ?thesis
    using i by (simp add: execCommand_def)
next
  case None
  then have "terminates (trace s) = 0"
    using j by (auto simp: session_inv_def)
  then show ?thesis
    using i None by (simp add: execCommand_def Let_def exit_spawn)
qed

lemma exit_writeRcloneConfig [simp]: "exit_inv (snd (writeRcloneConfig s)) = exit_inv s"
  by (simp add: exit_inv_def child_gone_def writeRcloneConfig_def
      split: list.splits option.splits)

lemma exit_handleCmd_dispatch:
  assumes i: "exit_inv s" and j: "session_inv s"
  shows "exit_inv (handleCmd_dispatch c s)"
proof (cases c)
  case (InitKodoFSMountCmd a)
  then show ?thesis
    using exit_execCommand [OF i j, of c None]
    by (simp add: handleCmd_dispatch_def split_beta exit_handleCmd_return)
next
  case (InitKodoMountCmd a)
  have "exit_inv (snd (execCommand c (Some RemoveRcloneConfig)
      (snd (writeRcloneConfig s)\<lparr>rcloneConfigPath := p\<rparr>)))" for p
    using i j inv_writeRcloneConfig [of s] by (intro exit_execCommand) simp_all
  then show ?thesis
    using i InitKodoMountCmd
    by (simp add: handleCmd_dispatch_def split_beta exit_handleCmd_return
        split: option.splits)
next
  case (RequestDataCmd d)
  have "exit_inv (emit (StdinWrite d) (s\<lparr>pipe_data := f\<rparr>))" for f
    using i by (intro exit_emit) simp_all
  then show ?thesis
    using i RequestDataCmd
    by (simp add: handleCmd_dispatch_def exit_handleCmd_return split: option.splits)
next
  case (ResponseDataCmd d b)
  then show ?thesis using i by (simp add: handleCmd_dispatch_def)
next
  case (TerminateCmd n)
  then show ?thesis using i by (simp add: handleCmd_dispatch_def)
qed

lemma exit_outputReader_read:
  "exit_inv s \<Longrightarrow> outputReader_read i s = Some s' \<Longrightarrow> exit_inv s'"
  by (auto simp: outputReader_read_def exit_emit split: option.splits if_splits list.splits)

lemma exit_outputReader [simp]:
  "exit_inv (outputReader_fault i s) = exit_inv s"
  "exit_inv (outputReader_check i d s) = exit_inv s"
  by (simp_all add: outputReader_fault_def outputReader_check_def split: option.splits)

lemma exit_run_start:
  assumes i: "exit_inv s" and j: "session_inv s" and a: "awaiter s = E_Run"
  shows "exit_inv (run_start s)"
proof -
  have z: "terminates (trace s) = 0"
    using j a by (simp add: session_inv_def)
  have "exit_inv (emit ev (s\<lparr>proc := p, awaiter := E_Wait\<rparr>))" if "\<not> is_terminate ev" for ev p
    using z that by (simp add: exit_inv_def emit_def code_ok_none order_none code_ok_other)
  moreover have "exit_inv (s\<lparr>proc := p, awaiter := E_Wait\<rparr>)" for p
    using z by (simp add: exit_inv_def code_ok_none order_none)
  moreover have "exit_inv (emit (Panic ExitTask) (s\<lparr>crashed := True\<rparr>))"
    using i by (intro exit_emit) simp_all
  ultimately show ?thesis
    by (simp add: run_start_def split: option.splits)
qed

lemma exit_run_returns:
  "exit_inv s \<Longrightarrow> awaiter s = E_Wait \<Longrightarrow> run_returns s = Some s' \<Longrightarrow> exit_inv s'"
  by (auto simp: exit_inv_def run_returns_def child_gone_def split: if_splits)

lemma exit_call_afterRun:
  assumes i: "exit_inv s" and j: "session_inv s" and a: "awaiter s = E_AfterRun"
  shows "exit_inv (call_afterRun s)"
proof -
  have z: "terminates (trace s) = 0"
    using j a by (simp add: session_inv_def)
  show ?thesis
    using i a z
    by (auto simp: exit_inv_def call_afterRun_def emit_def child_gone_def order_none
        code_ok_none terminates_0_iff list_all_iff split: option.splits after_run.splits)
qed

lemma exit_awaiter_check:
  "exit_inv s \<Longrightarrow> awaiter s = E_Check \<Longrightarrow> exit_inv (awaiter_check s)"
  by (auto simp: exit_inv_def awaiter_check_def child_gone_def)

lemma exit_awaiter_return:
  "exit_inv s \<Longrightarrow> awaiter s = E_Log \<Longrightarrow> exit_inv (awaiter_return s)"
  by (auto simp: exit_inv_def awaiter_return_def warn_def child_gone_def Let_def)

lemma exit_child_write: "exit_inv s \<Longrightarrow> child_write h s = Some s' \<Longrightarrow> exit_inv s'"
  by (auto simp: exit_inv_def child_write_def child_gone_def split: if_splits list.splits)

lemma exit_child_exit:
  assumes i: "exit_inv s" and j: "session_inv s" and c: "child_exit s = Some s'"
  shows "exit_inv s'"
proof -
  from c have r: "proc s = Running" and s': "s' = s\<lparr>proc := Exited (child_code s)\<rparr>"
    by (auto simp: child_exit_def split: if_splits)
  have na: "\<not> after_wait (awaiter s)"
    using i r by (auto simp: exit_inv_def child_gone_def)
  then have b: "before_send (awaiter s)" "\<not> after_cleanup (awaiter s)"
    by (cases "awaiter s"; simp)+
  have so: "send_ok p (awaiter s)" for p
    using na by (cases "awaiter s") simp_all
  have z: "terminates (trace s) = 0"
    using j b by (simp add: session_inv_def)
  show ?thesis
    using na b so z by (simp add: s' exit_inv_def code_ok_none order_none)
qed

lemma exit_panic_send: "exit_inv s \<Longrightarrow> panic_send w s = Some s' \<Longrightarrow> exit_inv s'"
  by (auto simp: panic_send_def exit_emit split: if_splits option.splits)

lemma exit_deliver:
  assumes i: "exit_inv s" and j: "session_inv s" and d: "deliver w s = Some s'"
  shows "exit_inv s'"
proof -
  from deliverD [OF d] obtain v where v: "sending s w = Some v" and o: "\<not> cmdIn_closed s"
    and s': "s' = handleConn_outbound (Some v) (emit (Sent w v) (after_send w s))"
    by blast
  show ?thesis
  proof (cases w)
    case (Reader k)
    from sending_reader [OF j] v Reader obtain x b where "v = ResponseDataCmd x b"
      by blast
    then have "exit_inv (emit (Sent w v) (set_reader_pc k R_Read s))"
      using i by (intro exit_emit) simp_all
    then show ?thesis
      using s' Reader by (simp add: after_send_def)
  next
    case ExitTask
    from sending_awaiter [OF j] v ExitTask obtain n where ve: "v = TerminateCmd n"
      and z: "terminates (trace s) = 0" and aw: "awaiter s = E_Send v"
      by blast
    have n: "n = ExitCode (proc s)"
      using i aw ve by (simp add: exit_inv_def)
    have m: "MarkedClosed \<notin> set (trace s)"
      using j o by (auto simp: session_inv_def)
    have "exit_inv (emit (Sent w v) (s\<lparr>awaiter := E_Log\<rparr>))"
      using i z aw ve n m
      by (auto simp: exit_inv_def emit_def child_gone_def order_snoc)
    then show ?thesis
      using s' ExitTask by (simp add: after_send_def)
  qed
qed

lemma exit_step:
  assumes i: "exit_inv s" and j: "session_inv s" and st: "step a s = Some s'"
  shows "exit_inv s'"
proof (cases a)
  case (Tick d)
  then show ?thesis
    using i st by (auto simp: step_def exit_inv_def child_gone_def split: if_splits)
next
  case InScan
  then show ?thesis
    using i st by (auto simp: step_def split: if_splits dest: exit_handleConn_scan)
next
  case InJoin
  then show ?thesis
    using i st by (auto simp: step_def guard_def split: if_splits)
next
  case Forward
  have "exit_inv (emit (Forwarded c) (s\<lparr>inbound := IN_Scan\<rparr>))" for c
    using i by (intro exit_emit) simp_all
  moreover have "session_inv (emit (Forwarded c) (s\<lparr>inbound := IN_Scan\<rparr>))" for c
    using j by (simp add: session_inv_def emit_def)
  ultimately show ?thesis
    using st Forward
    by (auto simp: step_def guard_def split: if_splits in_pc.splits
        intro!: exit_handleCmd_dispatch)
next
  case CmdChanClosed
  then show ?thesis
    using i st by (auto simp: step_def guard_def split: if_splits intro: exit_handleCmd_return)
next
  case CmdCtxDone
  then show ?thesis
    using i st by (auto simp: step_def guard_def split: if_splits intro: exit_handleCmd_return)
next
  case OutRecvClosed
  then show ?thesis
    using i st by (auto simp: step_def guard_def split: if_splits)
next
  case OutCtxDone
  then show ?thesis
    using i st by (auto simp: step_def guard_def exit_inv_def child_gone_def split: if_splits)
next
  case (Deliver w)
  then show ?thesis
    using i j st by (auto simp: step_def split: if_splits dest: exit_deliver)
next
  case (PanicSend w)
  then show ?thesis
    using i st by (auto simp: step_def split: if_splits dest: exit_panic_send)
next
  case (ReaderRead k)
  then show ?thesis
    using i st by (auto simp: step_def split: if_splits dest: exit_outputReader_read)
next
  case (ReaderFault k)
  then show ?thesis
    using i st by (auto simp: step_def guard_def split: if_splits)
next
  case (ReaderCheck k)
  then show ?thesis
    using i st by (auto simp: step_def split: if_splits option.splits reader_pc.splits)
next
  case RunStart
  then show ?thesis
    using i j st by (auto simp: step_def guard_def split: if_splits intro: exit_run_start)
next
  case RunReturns
  then show ?thesis
    using i st by (auto simp: step_def split: if_splits dest: exit_run_returns)
next
  case AfterRun
  then show ?thesis
    using i j st by (auto simp: step_def guard_def split: if_splits intro: exit_call_afterRun)
next
  case AwaiterCheck
  then show ?thesis
    using i st by (auto simp: step_def guard_def split: if_splits intro: exit_awaiter_check)
next
  case AwaiterReturn
  then show ?thesis
    using i st by (auto simp: step_def guard_def split: if_splits intro: exit_awaiter_return)
next
  case (ChildWrite h)
  then show ?thesis
    using i st by (auto simp: step_def split: if_splits dest: exit_child_write)
next
  case ChildExit
  then show ?thesis
    using i j st by (auto simp: step_def split: if_splits dest: exit_child_exit)
qed

lemma exit_run:
  "exit_inv s \<Longrightarrow> session_inv s \<Longrightarrow> run as s = Some s' \<Longrightarrow> exit_inv s'"
proof (induction as arbitrary: s)
  case Nil
  then show ?case by simp
next
  case (Cons a as)
  then obtain u where u: "step a s = Some u" and r: "run as u = Some s'"
    by (auto split: option.splits)
  from Cons.IH [OF exit_step [OF Cons.prems(1,2) u] inv_step [OF Cons.prems(2) u] r]
  show ?case .
qed

subsection \<open>Claim C1: the two readers\<close>

text \<open>
  Claim C1. For every started child process two relay loops run, one reading the
  process's standard output and one reading its standard error; each read emits a
  \<open>ResponseDataCmd\<close> with the bytes just read, \<open>isError\<close> false for the stdout loop and
  true for the stderr loop.

  The code does not do this. \<open>outputReader\<close> takes the stream as its \<open>output\<close> argument
  and reads the variable \<open>stdout\<close> instead, and the second \<open>go\<close> statement passes
  \<open>false\<close> for \<open>isError\<close>. In the run below the child writes \<open>O\<close> to its standard output
  and \<open>E\<close> to its standard error; the reader started for standard error sends \<open>O\<close> with
  \<open>isError\<close> false, and \<open>E\<close> stays in the pipe. And in every run of every connection,
  whatever the child has written to its standard error is still in the pipe, and every
  \<open>ResponseDataCmd\<close> sent carries \<open>isError\<close> false.
\<close>

theorem C1_stderr_reader_reads_stdout:
  "observe trace stderr_relay_run (main_accept (demo_env [init_fs] 0) 0) =
     Some [Forwarded (InitKodoFSMountCmd ''fs''), Started (InitKodoFSMountCmd ''fs''),
           Sent (Reader GoStderr) (ResponseDataCmd ''O'' False)]
   \<and> observe (pipe_content StderrPipe) stderr_relay_run (main_accept (demo_env [init_fs] 0) 0) =
       Some [''E'']
   \<and> observe (pipe_content StdoutPipe) stderr_relay_run (main_accept (demo_env [init_fs] 0) 0) =
       Some []
   \<and> observe (reader_of GoStderr) stderr_relay_run (main_accept (demo_env [init_fs] 0) 0) =
       Some (Some \<lparr>r_name = ''stderr'', r_output = Some StderrPipe, r_isError = False,
                   r_pc = R_Read\<rparr>)
   \<and> observe conn_out stderr_relay_run (main_accept (demo_env [init_fs] 0) 0) =
       Some [\<lparr>rq_Version = ''v1'', rq_Cmd = ''responseDataCmd'',
              rq_Payload = ResponseDataCmd ''O'' False\<rparr>]
   \<and> (\<forall>as e t. case run as (main_accept e t) of
                    None \<Rightarrow> True
                  | Some s \<Rightarrow> stderr_unread e s)"
proof -
  have "case run as (main_accept e t) of None \<Rightarrow> True | Some s \<Rightarrow> stderr_unread e s"
    for as e t
  proof (cases "run as (main_accept e t)")
    case None
    then show ?thesis by simp
  next
    case (Some s)
    from unread_run [OF unread_init Some] Some show ?thesis by simp
  qed
  moreover have
    "observe trace stderr_relay_run (main_accept (demo_env [init_fs] 0) 0) =
       Some [Forwarded (InitKodoFSMountCmd ''fs''), Started (InitKodoFSMountCmd ''fs''),
             Sent (Reader GoStderr) (ResponseDataCmd ''O'' False)]"
    "observe (pipe_content StderrPipe) stderr_relay_run (main_accept (demo_env [init_fs] 0) 0) =
       Some [''E'']"
    "observe (pipe_content StdoutPipe) stderr_relay_run (main_accept (demo_env [init_fs] 0) 0) =
       Some []"
    "observe (reader_of GoStderr) stderr_relay_run (main_accept (demo_env [init_fs] 0) 0) =
       Some (Some \<lparr>r_name = ''stderr'', r_output = Some StderrPipe, r_isError = False,
                   r_pc = R_Read\<rparr>)"
    "observe conn_out stderr_relay_run (main_accept (demo_env [init_fs] 0) 0) =
       Some [\<lparr>rq_Version = ''v1'', rq_Cmd = ''responseDataCmd'',
              rq_Payload = ResponseDataCmd ''O'' False\<rparr>]"
    by code_simp+
  ultimately show ?thesis
    by blast
qed

subsection \<open>Claim C2: a second init command\<close>

text \<open>
  Claim C2, as stated: for every session with a running child process, a second init
  command is rejected without starting a second process, emits no duplicate
  \<open>TerminateCmd\<close>, and leaves the session's state (process handle, pipes, closed flag)
  unchanged so that the original process continues unaffected.

  The last part fails. \<open>execCommand\<close> returns false, and \<open>handleCmd\<close> returns on that:
  its deferred calls store 1 in \<open>isClosed\<close>, close the three pipes, cancel the context and
  close the channel to the connection. Before the second command is handled the flag is 0
  and the pipes are open; after it the flag is 1 and the pipes are closed.
\<close>

theorem C2_second_init_closes_session:
  "observe proc second_init_before (main_accept (demo_env [init_fs, init_fs] 0) 0)
     = Some Running
   \<and> observe isClosed second_init_before (main_accept (demo_env [init_fs, init_fs] 0) 0)
       = Some 0
   \<and> observe isClosed second_init_run (main_accept (demo_env [init_fs, init_fs] 0) 0)
       = Some 1
   \<and> observe (pipe_is_closed StdinPipe) second_init_before
         (main_accept (demo_env [init_fs, init_fs] 0) 0) = Some False
   \<and> observe (pipe_is_closed StdinPipe) second_init_run
         (main_accept (demo_env [init_fs, init_fs] 0) 0) = Some True
   \<and> observe (pipe_is_closed StdoutPipe) second_init_before
         (main_accept (demo_env [init_fs, init_fs] 0) 0) = Some False
   \<and> observe (pipe_is_closed StdoutPipe) second_init_run
         (main_accept (demo_env [init_fs, init_fs] 0) 0) = Some True
   \<and> observe (pipe_is_closed StderrPipe) second_init_before
         (main_accept (demo_env [init_fs, init_fs] 0) 0) = Some False
   \<and> observe (pipe_is_closed StderrPipe) second_init_run
         (main_accept (demo_env [init_fs, init_fs] 0) 0) = Some True
   \<and> observe ctx_done second_init_before (main_accept (demo_env [init_fs, init_fs] 0) 0)
       = Some False
   \<and> observe ctx_done second_init_run (main_accept (demo_env [init_fs, init_fs] 0) 0)
       = Some True"
  by code_simp

lemma handleCmd_return_fields:
  "trace (handleCmd_return u) = trace u @ [MarkedClosed]"
  "execCmd (handleCmd_return u) = execCmd u"
  "proc (handleCmd_return u) = proc u"
  "readers (handleCmd_return u) = readers u"
  "awaiter (handleCmd_return u) = awaiter u"
  "afterRun (handleCmd_return u) = afterRun u"
  "stdin (handleCmd_return u) = stdin u"
  "stdout (handleCmd_return u) = stdout u"
  "stderr (handleCmd_return u) = stderr u"
  "handler (handleCmd_return u) = CMD_Done"
  "isClosed (handleCmd_return u) = 1"
  "ctx_done (handleCmd_return u)"
  "cmdIn_closed (handleCmd_return u)"
  "crashed (handleCmd_return u) = crashed u"
  "pipe_closed (handleCmd_return u) h =
     (pipe_closed u h \<or> stdin u = Some h \<or> stdout u = Some h \<or> stderr u = Some h)"
  by (auto simp: handleCmd_return_def Let_def emit_def close_pipe_def split: option.splits)

lemma duplicate_init_dispatch:
  assumes "execCmd u \<noteq> None" and "c = InitKodoFSMountCmd a \<or> c = InitKodoMountCmd a"
  shows "\<exists>v. handleCmd_dispatch c u = handleCmd_return v
           \<and> trace v = trace u \<and> execCmd v = execCmd u \<and> proc v = proc u
           \<and> readers v = readers u \<and> awaiter v = awaiter u \<and> afterRun v = afterRun u
           \<and> stdin v = stdin u \<and> stdout v = stdout u \<and> stderr v = stderr u
           \<and> pipe_closed v = pipe_closed u"
proof -
  have dup: "execCommand c ar w = (False, warn ''Received duplicated init cmd, which is unacceptable'' w)"
    if "execCmd w \<noteq> None" for ar w
    using that by (simp add: execCommand_def)
  from assms(2) show ?thesis
  proof
    assume c: "c = InitKodoFSMountCmd a"
    have "handleCmd_dispatch c u =
        handleCmd_return (warn ''Received duplicated init cmd, which is unacceptable'' u)"
      using c dup [OF assms(1)] by (simp add: handleCmd_dispatch_def)
    then show ?thesis
      by (intro exI conjI) (assumption, simp_all add: warn_def)
  next
    assume c: "c = InitKodoMountCmd a"
    obtain r u1 where w: "writeRcloneConfig u = (r, u1)"
      by (cases "writeRcloneConfig u")
    have u1: "trace u1 = trace u \<and> execCmd u1 = execCmd u \<and> proc u1 = proc u
        \<and> readers u1 = readers u \<and> awaiter u1 = awaiter u \<and> afterRun u1 = afterRun u
        \<and> stdin u1 = stdin u \<and> stdout u1 = stdout u \<and> stderr u1 = stderr u
        \<and> pipe_closed u1 = pipe_closed u"
      using w by (auto simp: writeRcloneConfig_def split: list.splits option.splits)
    show ?thesis
    proof (cases r)
      case None
      have "handleCmd_dispatch c u =
          handleCmd_return (warn ''Failed to write rclone config: %s'' (u1\<lparr>rcloneConfigPath := []\<rparr>))"
        using c w None by (simp add: handleCmd_dispatch_def)
      then show ?thesis
        using u1 by (intro exI conjI) (assumption, simp_all add: warn_def)
    next
      case (Some path)
      have "execCmd (u1\<lparr>rcloneConfigPath := path\<rparr>) \<noteq> None"
        using u1 assms(1) by simp
      from dup [OF this]
      have "handleCmd_dispatch c u =
          handleCmd_return (warn ''Received duplicated init cmd, which is unacceptable''
            (u1\<lparr>rcloneConfigPath := path\<rparr>))"
        using c w Some by (simp add: handleCmd_dispatch_def)
      then show ?thesis
        using u1 by (intro exI conjI) (assumption, simp_all add: warn_def)
    qed
  qed
qed

text \<open>
  Claim C2, amended. For every session that already has a process handle, a second init
  command is rejected without starting a second process and without anything being sent:
  the process handle, the process, the readers and the goroutine that runs the process are
  as before, and at most one \<open>TerminateCmd\<close> is ever sent in the session. The rejection
  ends \<open>handleCmd\<close>: the session is marked closed, its pipes are closed, its context is
  cancelled and its channel to the connection is closed.
\<close>

theorem C2_second_init_rejected:
  assumes reach: "run as (main_accept e t) = Some s"
    and live: "\<not> crashed s" "handler s = CMD_Select" "inbound s = IN_Send c"
    and init: "c = InitKodoFSMountCmd a \<or> c = InitKodoMountCmd a"
    and dup: "execCmd s \<noteq> None"
  shows "\<exists>s'. step Forward s = Some s'
           \<and> trace s' = trace s @ [Forwarded c, MarkedClosed]
           \<and> execCmd s' = execCmd s \<and> proc s' = proc s \<and> readers s' = readers s
           \<and> awaiter s' = awaiter s \<and> afterRun s' = afterRun s
           \<and> stdin s' = stdin s \<and> stdout s' = stdout s \<and> stderr s' = stderr s
           \<and> handler s' = CMD_Done \<and> isClosed s' = 1 \<and> ctx_done s' \<and> cmdIn_closed s'
           \<and> (\<forall>h. stdin s = Some h \<or> stdout s = Some h \<or> stderr s = Some h
                  \<longrightarrow> pipe_closed s' h)
           \<and> (\<forall>bs u. run bs s' = Some u \<longrightarrow> terminates (trace u) \<le> 1)"
proof -
  let ?u = "emit (Forwarded c) (s\<lparr>inbound := IN_Scan\<rparr>)"
  have st: "step Forward s = Some (handleCmd_dispatch c ?u)"
    using live by (simp add: step_def guard_def)
  have "execCmd ?u \<noteq> None"
    using dup by (simp add: emit_def)
  from duplicate_init_dispatch [OF this init] obtain v
    where d: "handleCmd_dispatch c ?u = handleCmd_return v"
      and v: "trace v = trace ?u" "execCmd v = execCmd ?u" "proc v = proc ?u"
        "readers v = readers ?u" "awaiter v = awaiter ?u" "afterRun v = afterRun ?u"
        "stdin v = stdin ?u" "stdout v = stdout ?u" "stderr v = stderr ?u"
        "pipe_closed v = pipe_closed ?u"
    by blast
  have u: "trace ?u = trace s @ [Forwarded c]" "execCmd ?u = execCmd s" "proc ?u = proc s"
    "readers ?u = readers s" "awaiter ?u = awaiter s" "afterRun ?u = afterRun s"
    "stdin ?u = stdin s" "stdout ?u = stdout s" "stderr ?u = stderr s"
    by (simp_all add: emit_def)
  have inv: "session_inv (handleCmd_dispatch c ?u)"
    using inv_step [OF inv_run [OF inv_init reach] st] .
  have one: "terminates (trace w) \<le> 1" if "run bs (handleCmd_dispatch c ?u) = Some w" for bs w
    using inv_run [OF inv that] by (simp add: session_inv_def)
  show ?thesis
    using st one by (simp add: d handleCmd_return_fields v u)
qed

theorem C2_second_init_rejected_witness:
  "\<exists>s s'. run second_init_before (main_accept (demo_env [init_fs, init_kodo ''b''] 0) 0) = Some s
       \<and> inbound s = IN_Send (InitKodoMountCmd ''b'') \<and> execCmd s = Some (InitKodoFSMountCmd ''fs'')
       \<and> step Forward s = Some s'
       \<and> trace s' = trace s @ [Forwarded (InitKodoMountCmd ''b''), MarkedClosed]
       \<and> execCmd s' = execCmd s \<and> proc s' = proc s \<and> readers s' = readers s
       \<and> awaiter s' = awaiter s \<and> handler s' = CMD_Done \<and> isClosed s' = 1
       \<and> ctx_done s' \<and> cmdIn_closed s'"
proof -
  have "observe (\<lambda>s. (crashed s, handler s, inbound s, execCmd s)) second_init_before
          (main_accept (demo_env [init_fs, init_kodo ''b''] 0) 0)
        = Some (False, CMD_Select, IN_Send (InitKodoMountCmd ''b''),
                Some (InitKodoFSMountCmd ''fs''))"
    by code_simp
  from observeD [OF this] obtain s
    where r: "run second_init_before (main_accept (demo_env [init_fs, init_kodo ''b''] 0) 0) = Some s"
      and h: "\<not> crashed s" "handler s = CMD_Select" "inbound s = IN_Send (InitKodoMountCmd ''b'')"
      and x: "execCmd s = Some (InitKodoFSMountCmd ''fs'')"
    by auto
  have i: "InitKodoMountCmd ''b'' = InitKodoFSMountCmd ''b'' \<or> InitKodoMountCmd ''b'' = InitKodoMountCmd ''b''"
    by simp
  have n: "execCmd s \<noteq> None"
    using x by simp
  from C2_second_init_rejected [OF r h i n] r h x show ?thesis
    by blast
qed

subsection \<open>Claim C3: the order of what is sent\<close>




subsection \<open>Claim C4: decoding and encoding\<close>




subsection \<open>Claim C5: what happens when the child terminates\<close>





subsection \<open>Claim C6: teardown\<close>

text \<open>
  Claim C6. For every teardown trigger of a connection (socket read error or EOF, protocol
  decode failure, version mismatch, unknown command, or session termination), both loops
  eventually exit and the socket and session are closed, with no goroutine left blocked or
  spinning.

  The code does not do this when the session terminates. \<open>handleCmd\<close> returns and closes
  its channel; the outbound goroutine receives from the channel without testing for the
  close, so every receive yields nil at once and the loop spins; it leaves only when the
  context of \<open>handleConn\<close> is cancelled, which the inbound loop does when its read ends.
  In the first run below the child has exited and \<open>handleCmd\<close> has returned: the socket is
  open, the inbound loop is in its scan, and any number of receives of the outbound
  goroutine leave the state as it is. In the second the peer sends one more line: the
  inbound loop blocks in its channel send, and in every continuation it is still there,
  the socket open and the outbound goroutine in its loop.
\<close>

theorem C6_outbound_loop_spins:
  "observe (\<lambda>s. (handler s, cmdIn_closed s, outbound s, inbound s, conn_ctx_done s,
        conn_closed s, crashed s)) exit_run (main_accept (demo_env [init_fs] 0) 0)
     = Some (CMD_Done, True, OUT_Select, IN_Scan, False, False, False)
   \<and> (\<forall>n. run (exit_run @ replicate n OutRecvClosed) (main_accept (demo_env [init_fs] 0) 0)
           = run exit_run (main_accept (demo_env [init_fs] 0) 0))
   \<and> (\<forall>as. case run (exit_run @ [InScan] @ as)
                  (main_accept (demo_env [init_fs, request_data] 0) 0) of
             None \<Rightarrow> True
           | Some u \<Rightarrow> stuck_sending (RequestDataCmd ''x'') u)"
proof -
  have o: "observe (\<lambda>s. (handler s, cmdIn_closed s, outbound s, inbound s, conn_ctx_done s,
        conn_closed s, crashed s)) exit_run (main_accept (demo_env [init_fs] 0) 0)
     = Some (CMD_Done, True, OUT_Select, IN_Scan, False, False, False)"
    by code_simp
  from observeD [OF o] obtain s where r: "run exit_run (main_accept (demo_env [init_fs] 0) 0) = Some s"
    and f: "\<not> crashed s" "outbound s = OUT_Select" "cmdIn_closed s"
    by auto
  have sp: "run (exit_run @ replicate n OutRecvClosed) (main_accept (demo_env [init_fs] 0) 0)
      = run exit_run (main_accept (demo_env [init_fs] 0) 0)" for n
    using r spin [OF f] by (simp add: run_append)
  have "observe (stuck_sending (RequestDataCmd ''x'')) (exit_run @ [InScan])
      (main_accept (demo_env [init_fs, request_data] 0) 0) = Some True"
    by code_simp
  from observeD [OF this] obtain v
    where rv: "run (exit_run @ [InScan]) (main_accept (demo_env [init_fs, request_data] 0) 0) = Some v"
      and k: "stuck_sending (RequestDataCmd ''x'') v"
    by auto
  have st: "case run (exit_run @ [InScan] @ as)
                  (main_accept (demo_env [init_fs, request_data] 0) 0) of
             None \<Rightarrow> True
           | Some u \<Rightarrow> stuck_sending (RequestDataCmd ''x'') u" for as
  proof -
    have "run (exit_run @ [InScan] @ as) (main_accept (demo_env [init_fs, request_data] 0) 0)
        = run as v"
      using rv run_append [of "exit_run @ [InScan]" as] by simp
    then show ?thesis
      using run_stuck [OF _ k] by (auto split: option.splits)
  qed
  show ?thesis
    using o sp st by blast
qed

text \<open>
  A teardown can also end in a panic. Here a reader has passed its check of \<open>isClosed\<close>
  and is in its send when the peer closes the socket: \<open>handleConn\<close> returns, the outbound
  goroutine leaves, \<open>handleCmd\<close> returns and closes the channel the reader is sending on.
\<close>

lemma teardown_panic:
  "observe crashed panic_run (main_accept (demo_env [init_fs, EOF] 0) 0) = Some True
   \<and> observe trace panic_run (main_accept (demo_env [init_fs, EOF] 0) 0) =
       Some [Forwarded (InitKodoFSMountCmd ''fs''), Started (InitKodoFSMountCmd ''fs''),
             MarkedClosed, Panic (Reader GoStdout)]"
  by (simp add: panic_run_def model_defs)

subsection \<open>Claim C7: a line of another protocol version\<close>



subsection \<open>Claim C8: data before any init command\<close>

text \<open>
  Claim C8. When a \<open>RequestDataCmd\<close> arrives before any init command has started a
  process, the command is rejected with a warning, no bytes are written anywhere, no crash
  occurs, and the connection is terminated cleanly.

  The code rejects the command: \<open>handleCmd\<close> logs the warning and returns, nothing is
  written and nothing panics. The connection is not terminated: \<open>handleCmd\<close> closes its
  channel, on which the outbound goroutine then spins as under C6; the socket stays open
  and the inbound loop goes on scanning. When the peer sends one more line, the inbound
  loop blocks in its channel send and stays there in every continuation.
\<close>

theorem C8_request_before_init:
  "observe (\<lambda>s. (trace s, logs s, pipe_data s StdinPipe, crashed s))
       [InScan, Forward] (main_accept (demo_env [request_data] 0) 0)
     = Some ([Forwarded (RequestDataCmd ''x''), MarkedClosed],
             [''Received RequestDataCmd when process is not started''], [], False)
   \<and> observe (\<lambda>s. (handler s, cmdIn_closed s, outbound s, inbound s, conn_ctx_done s,
          conn_closed s)) [InScan, Forward] (main_accept (demo_env [request_data] 0) 0)
       = Some (CMD_Done, True, OUT_Select, IN_Scan, False, False)
   \<and> (\<forall>n. run ([InScan, Forward] @ replicate n OutRecvClosed)
             (main_accept (demo_env [request_data] 0) 0)
           = run [InScan, Forward] (main_accept (demo_env [request_data] 0) 0))
   \<and> (\<forall>as. case run ([InScan, Forward, InScan] @ as)
                  (main_accept (demo_env [request_data, request_data] 0) 0) of
             None \<Rightarrow> True
           | Some u \<Rightarrow> stuck_sending (RequestDataCmd ''x'') u)"
proof -
  have a: "observe (\<lambda>s. (trace s, logs s, pipe_data s StdinPipe, crashed s))
       [InScan, Forward] (main_accept (demo_env [request_data] 0) 0)
     = Some ([Forwarded (RequestDataCmd ''x''), MarkedClosed],
             [''Received RequestDataCmd when process is not started''], [], False)"
    by code_simp
  have b: "observe (\<lambda>s. (handler s, cmdIn_closed s, outbound s, inbound s, conn_ctx_done s,
          conn_closed s)) [InScan, Forward] (main_accept (demo_env [request_data] 0) 0)
       = Some (CMD_Done, True, OUT_Select, IN_Scan, False, False)"
    by code_simp
  from observeD [OF a] observeD [OF b] obtain s
    where r: "run [InScan, Forward] (main_accept (demo_env [request_data] 0) 0) = Some s"
      and f: "\<not> crashed s" "outbound s = OUT_Select" "cmdIn_closed s"
    by auto
  have sp: "run ([InScan, Forward] @ replicate n OutRecvClosed)
             (main_accept (demo_env [request_data] 0) 0)
           = run [InScan, Forward] (main_accept (demo_env [request_data] 0) 0)" for n
    using r spin [OF f] by (simp only: run_append option.case)
  have "observe (stuck_sending (RequestDataCmd ''x'')) [InScan, Forward, InScan]
      (main_accept (demo_env [request_data, request_data] 0) 0) = Some True"
    by code_simp
  from observeD [OF this] obtain v
    where rv: "run [InScan, Forward, InScan]
                 (main_accept (demo_env [request_data, request_data] 0) 0) = Some v"
      and k: "stuck_sending (RequestDataCmd ''x'') v"
    by auto
  have st: "case run ([InScan, Forward, InScan] @ as)
                  (main_accept (demo_env [request_data, request_data] 0) 0) of
             None \<Rightarrow> True
           | Some u \<Rightarrow> stuck_sending (RequestDataCmd ''x'') u" for as
  proof -
    have "run ([InScan, Forward, InScan] @ as)
            (main_accept (demo_env [request_data, request_data] 0) 0) = run as v"
      using rv run_append [of "[InScan, Forward, InScan]" as] by simp
    then show ?thesis
      using run_stuck [OF _ k] by (auto split: option.splits)
  qed
  show ?thesis
    using a b sp st by blast
qed

subsection \<open>Claim C9: the temporary configuration file\<close>

text \<open>
  Claim C9. For every \<open>InitKodoMountCmd\<close> that starts a process, a temporary
  configuration file is created before exec, and after the child exits, whatever its exit
  code, that file is deleted.

  The code does not do this when a second \<open>InitKodoMountCmd\<close> arrives before the child
  exits. \<open>handleCmd\<close> calls \<open>writeRcloneConfig\<close> and assigns \<open>rcloneConfigPath\<close> before
  \<open>execCommand\<close> rejects the duplicate, and the cleanup registered for the first command
  reads that variable when it runs. In the run below the first command makes the file
  \<open>A\<close> and starts the process, the second makes \<open>B\<close> and is rejected; after the child has
  exited, \<open>B\<close> has been removed and \<open>A\<close> is still there.

  With one init command the file is removed, whatever the exit code.
\<close>

theorem C9_first_config_file_remains:
  "observe (\<lambda>s. (files s, trace s, proc s, awaiter s)) closed_before_exit_run
       (main_accept (demo_env [init_kodo ''a'', init_kodo ''b''] 3) 0)
     = Some ({''A''},
             [Forwarded (InitKodoMountCmd ''a''), Started (InitKodoMountCmd ''a''),
              Forwarded (InitKodoMountCmd ''b''), MarkedClosed, Removed ''B''],
             Exited 3, E_Done)"
  by (simp add: closed_before_exit_run_def model_defs)

lemma single_init_file_removed:
  "observe (\<lambda>s. (files s, trace s)) exit_run (main_accept (demo_env [init_kodo ''a''] code) 0)
     = Some ({}, [Forwarded (InitKodoMountCmd ''a''), Started (InitKodoMountCmd ''a''),
                  Removed ''A'', Sent ExitTask (TerminateCmd code), MarkedClosed])"
  by (simp add: exit_run_def model_defs)

subsection \<open>Claim C10: the deadline\<close>

text \<open>
  Claim C10. For every accepted connection one absolute read/write deadline of 30 seconds
  from accept time is set once and never refreshed, so every socket read and write on the
  connection fails once 30 seconds have passed since accept, whatever the activity.

  In every state the connection reaches, the deadline is the accept time plus 30 seconds;
  when that time has come, the scan of the inbound loop returns with a read error and
  \<open>marshalToConn\<close> writes nothing.
\<close>

theorem C10_deadline_set_once:
  assumes "run as (main_accept e t) = Some s"
  shows "deadline s = t + 30 * Second \<and> t \<le> now s
         \<and> (t + 30 * Second \<le> now s \<longrightarrow>
              \<not> conn_usable s
              \<and> handleConn_scan s = Some (handleConn_return (warn ''Read from conn error: %s'' s))
              \<and> (\<forall>n c. conn_out (marshalToConn n c s) = conn_out s))"
proof -
  from run_deadline [OF assms]
  have d: "deadline s = t + 30 * Second" and n: "t \<le> now s"
    by (simp_all add: main_accept_def)
  show ?thesis
    using d n by (simp add: conn_usable_def handleConn_scan_def marshalToConn_def warn_def)
qed

theorem C10_deadline_set_once_witness:
  "\<exists>s. run [InScan, Forward, Tick 30000000000] (main_accept (demo_env [init_fs] 0) 5) = Some s
       \<and> deadline s = 5 + 30 * Second \<and> 5 + 30 * Second \<le> now s \<and> \<not> conn_usable s
       \<and> handleConn_scan s = Some (handleConn_return (warn ''Read from conn error: %s'' s))
       \<and> conn_out (marshalToConn ''terminateCmd'' (TerminateCmd 0) s) = conn_out s"
proof -
  have "observe now [InScan, Forward, Tick 30000000000] (main_accept (demo_env [init_fs] 0) 5)
          = Some 30000000005"
    by (simp add: model_defs)
  from observeD [OF this] obtain s
    where r: "run [InScan, Forward, Tick 30000000000] (main_accept (demo_env [init_fs] 0) 5) = Some s"
      and n: "now s = 30000000005"
    by blast
  have "5 + 30 * Second \<le> now s"
    using n by (simp add: Second_def)
  with C10_deadline_set_once [OF r] r show ?thesis
    by blast
qed

end
